theory Spec2Isabelle
  imports Main "HOL-Library.Multiset" "HOL-Library.AList"
begin

section \<open>Card rules (backend/src/game/CardLogic.ts, shared/types.ts)\<close>

text \<open>
  A card is the string \<open>rank @ suit\<close> (\<^verbatim>\<open>type Card = string\<close>), for example
  \<open>''10d''\<close>; ranks and suits are strings as well.
\<close>

type_synonym card = string
type_synonym suit = string
type_synonym rank = string

definition ranks :: "rank list" where
  "ranks = [''6'', ''7'', ''8'', ''9'', ''10'', ''J'', ''Q'', ''K'', ''A'']"

definition suits :: "suit list" where
  "suits = [''h'', ''d'', ''c'', ''s'']"

text \<open>\<^verbatim>\<open>generateDeck\<close>: the outer loop runs over the suits, the inner one over the ranks.\<close>

definition generateDeck :: "card list" where
  "generateDeck = concat (map (\<lambda>suit. map (\<lambda>rank. rank @ suit) ranks) suits)"

text \<open>
  \<^verbatim>\<open>shuffleDeck\<close> (Fisher-Yates). The random source is the function \<open>rnd\<close>: at
  iteration \<open>i\<close> the index \<^verbatim>\<open>Math.floor(Math.random() * (i + 1))\<close> is some value of
  \<open>{0..i}\<close>, here \<open>rnd i mod (i + 1)\<close>. The loop runs for \<open>i\<close> from
  \<open>length - 1\<close> down to \<open>1\<close>.
\<close>

fun shuffleLoop :: "(nat \<Rightarrow> nat) \<Rightarrow> nat \<Rightarrow> card list \<Rightarrow> card list" where
  "shuffleLoop rnd 0 shuffled = shuffled"
| "shuffleLoop rnd (Suc i) shuffled =
     (let j = rnd (Suc i) mod (Suc i + 1)
      in shuffleLoop rnd i (shuffled[Suc i := shuffled ! j, j := shuffled ! Suc i]))"

definition shuffleDeck :: "(nat \<Rightarrow> nat) \<Rightarrow> card list \<Rightarrow> card list" where
  "shuffleDeck rnd deck = shuffleLoop rnd (length deck - 1) deck"

text \<open>\<^verbatim>\<open>parseCard\<close>: \<^verbatim>\<open>card.slice(-1)\<close> is the last character (the empty string
  for the empty string), \<^verbatim>\<open>card.slice(0, -1)\<close> everything before it.\<close>

definition parseCard :: "card \<Rightarrow> rank \<times> suit" where
  "parseCard c = (butlast c, (if c = [] then [] else [last c]))"

definition RANK_VALUES :: "rank \<Rightarrow> nat option" where
  "RANK_VALUES = map_of
     [(''6'', 6), (''7'', 7), (''8'', 8), (''9'', 9), (''10'', 10),
      (''J'', 11), (''Q'', 12), (''K'', 13), (''A'', 14)]"

text \<open>JavaScript's \<^verbatim>\<open>a > b\<close> on table lookups: a missing key is \<^verbatim>\<open>undefined\<close>,
  which compares as NaN, so the comparison is false.\<close>

definition js_gt :: "nat option \<Rightarrow> nat option \<Rightarrow> bool" where
  "js_gt a b = (case a of None \<Rightarrow> False
                | Some x \<Rightarrow> (case b of None \<Rightarrow> False | Some y \<Rightarrow> y < x))"

definition canBeat :: "card \<Rightarrow> card \<Rightarrow> suit \<Rightarrow> bool" where
  "canBeat attackCard defenseCard trumpSuit =
     (let attack = parseCard attackCard;
          defense = parseCard defenseCard;
          attackValue = RANK_VALUES (fst attack);
          defenseValue = RANK_VALUES (fst defense);
          attackIsTrump = (snd attack = trumpSuit);
          defenseIsTrump = (snd defense = trumpSuit)
      in if snd attack = snd defense \<and> \<not> attackIsTrump then js_gt defenseValue attackValue
         else if attackIsTrump \<and> defenseIsTrump then js_gt defenseValue attackValue
         else if \<not> attackIsTrump \<and> defenseIsTrump then True
         else False)"

definition canThrowIn :: "card \<Rightarrow> card list \<Rightarrow> bool" where
  "canThrowIn c tableCards =
     (if tableCards = [] then False
      else list_ex (\<lambda>tableCard. fst (parseCard tableCard) = fst (parseCard c)) tableCards)"

text \<open>
  \<^verbatim>\<open>sortHand\<close>. The comparator: trumps last, then by suit with
  \<^verbatim>\<open>localeCompare\<close> (on the suit letters this is the order of the character codes),
  then by rank value; a difference with a missing rank is NaN, which
  \<^verbatim>\<open>Array.prototype.sort\<close> treats as 0. The sort is stable; on a consistent
  comparator its result is the one of a stable insertion sort.
\<close>

fun str_less :: "string \<Rightarrow> string \<Rightarrow> bool" where
  "str_less [] [] = False"
| "str_less [] (y # ys) = True"
| "str_less (x # xs) [] = False"
| "str_less (x # xs) (y # ys) =
     ((of_char x :: nat) < of_char y \<or> (x = y \<and> str_less xs ys))"

definition localeCompare :: "string \<Rightarrow> string \<Rightarrow> int" where
  "localeCompare a b = (if a = b then 0 else if str_less a b then - 1 else 1)"

definition truthy :: "string \<Rightarrow> bool" where
  "truthy s = (s \<noteq> [])"

definition compareInHand :: "suit option \<Rightarrow> card \<Rightarrow> card \<Rightarrow> int" where
  "compareInHand trumpSuit a b =
     (let cardA = parseCard a;
          cardB = parseCard b;
          aIsTrump = (case trumpSuit of None \<Rightarrow> False | Some t \<Rightarrow> truthy t \<and> snd cardA = t);
          bIsTrump = (case trumpSuit of None \<Rightarrow> False | Some t \<Rightarrow> truthy t \<and> snd cardB = t)
      in if aIsTrump \<and> \<not> bIsTrump then 1
         else if \<not> aIsTrump \<and> bIsTrump then - 1
         else if snd cardA \<noteq> snd cardB then localeCompare (snd cardA) (snd cardB)
         else (case RANK_VALUES (fst cardA) of None \<Rightarrow> 0
               | Some x \<Rightarrow> (case RANK_VALUES (fst cardB) of None \<Rightarrow> 0
                            | Some y \<Rightarrow> int x - int y)))"

fun insertSorted :: "(card \<Rightarrow> card \<Rightarrow> int) \<Rightarrow> card \<Rightarrow> card list \<Rightarrow> card list" where
  "insertSorted cmp c [] = [c]"
| "insertSorted cmp c (x # xs) =
     (if cmp c x \<le> 0 then c # x # xs else x # insertSorted cmp c xs)"

definition sortHand :: "card list \<Rightarrow> suit option \<Rightarrow> card list" where
  "sortHand hand trumpSuit = foldr (insertSorted (compareInHand trumpSuit)) hand []"

section \<open>The match state machine (backend/src/game/GameSession.ts)\<close>

datatype phase = Waiting | Playing | Finished

text \<open>The only exception the class can raise: a method call or property read on
  \<^verbatim>\<open>undefined\<close>, when \<^verbatim>\<open>this.hands[playerId]\<close> has no entry for the player.
  \<^verbatim>\<open>hands\<close> is a map from player identifiers to hands; identifiers that name a
  property of every JavaScript object (\<^verbatim>\<open>constructor\<close>, \<^verbatim>\<open>__proto__\<close>, ...) are
  outside the model.\<close>

datatype error = TypeError

type_synonym 'a result = "error + 'a"

text \<open>\<^verbatim>\<open>CardPair\<close>: \<^verbatim>\<open>{ attack: Card, defense: Card | null }\<close>.\<close>

datatype cardPair = CardPair (attackOf: card) (defenseOf: "card option")

text \<open>\<^verbatim>\<open>lastAction\<close> is a message in Russian built from the player and the card; the
  model keeps which message it is and its arguments.\<close>

datatype action =
    NoAction
  | GameStarted
  | OpponentLeft
  | Attacks string card
  | Defends string card
  | ThrowsIn string card
  | RoundDone
  | Took string
  | Won string

record gameSession =
  roomId :: string
  players :: "string list"
  hands :: "string \<rightharpoonup> card list"
  deck :: "card list"
  trumpCard :: "card option"
  trumpSuit :: "suit option"
  table :: "cardPair list"
  attacker :: "string option"
  defender :: "string option"
  phase :: phase
  winner :: "string option"
  canThrow :: bool
  lastAction :: action

definition newSession :: "string \<Rightarrow> gameSession" where
  "newSession rid =
     \<lparr>roomId = rid, players = [], hands = Map.empty, deck = [], trumpCard = None,
      trumpSuit = None, table = [], attacker = None, defender = None, phase = Waiting,
      winner = None, canThrow = False, lastAction = NoAction\<rparr>"

text \<open>A \<^verbatim>\<open>string | null\<close> used as a condition: \<^verbatim>\<open>null\<close> and the empty string are
  falsy.\<close>

definition truthyOpt :: "string option \<Rightarrow> bool" where
  "truthyOpt x = (case x of None \<Rightarrow> False | Some v \<Rightarrow> truthy v)"

text \<open>\<^verbatim>\<open>for (const playerId of ...)\<close> with a body that may raise.\<close>

fun forEach :: "('a \<Rightarrow> 's \<Rightarrow> 's result) \<Rightarrow> 'a list \<Rightarrow> 's \<Rightarrow> 's result" where
  "forEach f [] s = Inr s"
| "forEach f (x # xs) s = (case f x s of Inl e \<Rightarrow> Inl e | Inr s1 \<Rightarrow> forEach f xs s1)"

subsection \<open>Starting the game\<close>

text \<open>One step of the dealing loop: \<^verbatim>\<open>deck.pop()\<close> takes the last card (nothing from an
  empty deck) and \<^verbatim>\<open>if (card)\<close> pushes it on the player's hand.\<close>

definition dealCard :: "string \<Rightarrow> gameSession \<Rightarrow> gameSession result" where
  "dealCard playerId s =
     (if deck s = [] then Inr s
      else let c = last (deck s); s1 = s\<lparr>deck := butlast (deck s)\<rparr>
           in if truthy c
              then (case hands s1 playerId of
                      None \<Rightarrow> Inl TypeError
                    | Some hand \<Rightarrow> Inr (s1\<lparr>hands := (hands s1)(playerId \<mapsto> hand @ [c])\<rparr>))
              else Inr s1)"

fun dealRounds :: "nat \<Rightarrow> gameSession \<Rightarrow> gameSession result" where
  "dealRounds 0 s = Inr s"
| "dealRounds (Suc n) s =
     (case forEach dealCard (players s) s of Inl e \<Rightarrow> Inl e | Inr s1 \<Rightarrow> dealRounds n s1)"

text \<open>\<^verbatim>\<open>compareCards\<close>: the difference of the rank values, NaN (\<open>None\<close>) when a rank is
  not in the table.\<close>

definition compareCards :: "card \<Rightarrow> card \<Rightarrow> int option" where
  "compareCards a b =
     (case RANK_VALUES (fst (parseCard a)) of
        None \<Rightarrow> None
      | Some x \<Rightarrow> (case RANK_VALUES (fst (parseCard b)) of
                     None \<Rightarrow> None
                   | Some y \<Rightarrow> Some (int x - int y)))"

text \<open>\<^verbatim>\<open>determineFirstAttacker\<close>: the scan keeps \<open>(lowestTrump, firstAttacker)\<close>.\<close>

fun scanHand ::
  "suit option \<Rightarrow> string \<Rightarrow> card list \<Rightarrow> card option \<times> string option
     \<Rightarrow> card option \<times> string option" where
  "scanHand t playerId [] acc = acc"
| "scanHand t playerId (c # cs) acc =
     scanHand t playerId cs
       (if Some (snd (parseCard c)) = t
           \<and> (\<not> truthyOpt (fst acc)
               \<or> (case fst acc of
                     None \<Rightarrow> False
                   | Some l \<Rightarrow> (case compareCards c l of None \<Rightarrow> False | Some d \<Rightarrow> d < 0)))
        then (Some c, Some playerId) else acc)"

fun scanPlayers ::
  "gameSession \<Rightarrow> string list \<Rightarrow> card option \<times> string option
     \<Rightarrow> (card option \<times> string option) result" where
  "scanPlayers s [] acc = Inr acc"
| "scanPlayers s (p # ps) acc =
     (case hands s p of
        None \<Rightarrow> Inl TypeError
      | Some hand \<Rightarrow> scanPlayers s ps (scanHand (trumpSuit s) p hand acc))"

text \<open>\<open>coin\<close> is \<^verbatim>\<open>Math.floor(Math.random() * 2)\<close>; \<^verbatim>\<open>players[coin]\<close> is
  \<^verbatim>\<open>undefined\<close> beyond the end of the array.\<close>

definition determineFirstAttacker :: "nat \<Rightarrow> gameSession \<Rightarrow> gameSession result" where
  "determineFirstAttacker coin s =
     (case scanPlayers s (players s) (None, None) of
        Inl e \<Rightarrow> Inl e
      | Inr acc \<Rightarrow>
          Inr (s\<lparr>attacker :=
                 (if truthyOpt (snd acc) then snd acc
                  else if coin mod 2 < length (players s)
                       then Some (players s ! (coin mod 2)) else None)\<rparr>))"

definition sortPlayerHand :: "string \<Rightarrow> gameSession \<Rightarrow> gameSession result" where
  "sortPlayerHand playerId s =
     (case hands s playerId of
        None \<Rightarrow> Inl TypeError
      | Some hand \<Rightarrow> Inr (s\<lparr>hands := (hands s)(playerId \<mapsto> sortHand hand (trumpSuit s))\<rparr>))"

text \<open>\<^verbatim>\<open>startGame\<close>: \<open>rnd\<close> drives the shuffle, \<open>coin\<close> the draw of the first attacker
  when nobody holds a trump. \<^verbatim>\<open>deck.shift()\<close> takes the first card of the array.\<close>

definition startGame :: "(nat \<Rightarrow> nat) \<Rightarrow> nat \<Rightarrow> gameSession \<Rightarrow> gameSession result" where
  "startGame rnd coin s =
     (case dealRounds 6 (s\<lparr>deck := shuffleDeck rnd generateDeck\<rparr>) of
        Inl e \<Rightarrow> Inl e
      | Inr s1 \<Rightarrow>
          let s2 = (case deck s1 of
                      [] \<Rightarrow> s1\<lparr>trumpCard := None\<rparr>
                    | c # rest \<Rightarrow>
                        s1\<lparr>deck := rest, trumpCard := (if truthy c then Some c else None)\<rparr>);
              s3 = (case trumpCard s2 of
                      None \<Rightarrow> s2
                    | Some c \<Rightarrow> s2\<lparr>trumpSuit := Some (snd (parseCard c))\<rparr>)
          in (case determineFirstAttacker coin s3 of
                Inl e \<Rightarrow> Inl e
              | Inr s4 \<Rightarrow>
                  let s5 = s4\<lparr>defender :=
                              (case find (\<lambda>p. Some p \<noteq> attacker s4) (players s4) of
                                 None \<Rightarrow> None
                               | Some q \<Rightarrow> if truthy q then Some q else None)\<rparr>
                  in (case forEach sortPlayerHand (players s5) s5 of
                        Inl e \<Rightarrow> Inl e
                      | Inr s6 \<Rightarrow> Inr (s6\<lparr>phase := Playing, lastAction := GameStarted\<rparr>))))"

subsection \<open>Players\<close>

definition addPlayer ::
  "string \<Rightarrow> (nat \<Rightarrow> nat) \<Rightarrow> nat \<Rightarrow> gameSession \<Rightarrow> (bool \<times> gameSession) result" where
  "addPlayer playerId rnd coin s =
     (if 2 \<le> length (players s) then Inr (False, s)
      else if playerId \<in> set (players s) then Inr (False, s)
      else let s1 = s\<lparr>players := players s @ [playerId], hands := (hands s)(playerId \<mapsto> [])\<rparr>
           in if length (players s1) = 2
              then (case startGame rnd coin s1 of
                      Inl e \<Rightarrow> Inl e
                    | Inr s2 \<Rightarrow> Inr (True, s2))
              else Inr (True, s1))"

definition removePlayer :: "string \<Rightarrow> gameSession \<Rightarrow> gameSession" where
  "removePlayer playerId s =
     (let s1 = s\<lparr>players := filter (\<lambda>p. p \<noteq> playerId) (players s),
                 hands := (hands s)(playerId := None)\<rparr>
      in if phase s1 = Playing \<and> length (players s1) = 1
         then s1\<lparr>winner := Some (hd (players s1)), phase := Finished,
                 lastAction := OpponentLeft\<rparr>
         else s1)"

subsection \<open>Helpers of the moves\<close>

text \<open>\<^verbatim>\<open>removeCardFromHand\<close>: \<^verbatim>\<open>indexOf\<close> and \<^verbatim>\<open>splice\<close> remove the first
  occurrence of the card, if there is one.\<close>

definition removeCardFromHand :: "string \<Rightarrow> card \<Rightarrow> gameSession \<Rightarrow> gameSession result" where
  "removeCardFromHand playerId c s =
     (case hands s playerId of
        None \<Rightarrow> Inl TypeError
      | Some hand \<Rightarrow> Inr (s\<lparr>hands := (hands s)(playerId \<mapsto> remove1 c hand)\<rparr>))"

text \<open>\<^verbatim>\<open>[p.attack, p.defense].filter(Boolean)\<close>: the cards of a pair, without
  \<^verbatim>\<open>null\<close> and without empty strings.\<close>

definition pairCards :: "cardPair \<Rightarrow> card list" where
  "pairCards p =
     filter truthy (attackOf p # (case defenseOf p of None \<Rightarrow> [] | Some d \<Rightarrow> [d]))"

definition tableCards :: "gameSession \<Rightarrow> card list" where
  "tableCards s = concat (map pairCards (table s))"

definition allDefended :: "cardPair list \<Rightarrow> bool" where
  "allDefended t = list_all (\<lambda>p. defenseOf p \<noteq> None) t"

text \<open>\<^verbatim>\<open>pair.defense = defenseCard\<close> on the pair that \<^verbatim>\<open>table.find\<close> returned: the
  first pair with this attack card and no defense.\<close>

fun setDefense :: "card \<Rightarrow> card \<Rightarrow> cardPair list \<Rightarrow> cardPair list" where
  "setDefense a d [] = []"
| "setDefense a d (p # ps) =
     (if attackOf p = a \<and> defenseOf p = None then CardPair (attackOf p) (Some d) # ps
      else p # setDefense a d ps)"

text \<open>The \<^verbatim>\<open>while\<close> loop of \<^verbatim>\<open>refillHands\<close> on one hand and the deck: draw from the
  end of the deck while the hand has fewer than 6 cards and the deck is not empty.\<close>

function drawUpTo :: "card list \<Rightarrow> card list \<Rightarrow> card list \<times> card list" where
  "drawUpTo hand dk =
     (if length hand < 6 \<and> 0 < length dk
      then drawUpTo (if truthy (last dk) then hand @ [last dk] else hand) (butlast dk)
      else (hand, dk))"
  by pat_completeness auto
termination
  by (relation "measure (\<lambda>(hand, dk). length dk)") auto

declare drawUpTo.simps [simp del]

definition refillPlayer :: "string \<Rightarrow> gameSession \<Rightarrow> gameSession result" where
  "refillPlayer playerId s =
     (case hands s playerId of
        None \<Rightarrow> Inl TypeError
      | Some hand \<Rightarrow>
          let r = drawUpTo hand (deck s)
          in Inr (s\<lparr>deck := snd r,
                    hands := (hands s)(playerId \<mapsto> sortHand (fst r) (trumpSuit s))\<rparr>))"

definition refillOrder :: "gameSession \<Rightarrow> string list" where
  "refillOrder s =
     filter truthy
       ((case attacker s of None \<Rightarrow> [] | Some a \<Rightarrow> [a])
        @ (case defender s of None \<Rightarrow> [] | Some d \<Rightarrow> [d]))"

definition refillHands :: "gameSession \<Rightarrow> gameSession result" where
  "refillHands s =
     (case forEach refillPlayer (refillOrder s) s of
        Inl e \<Rightarrow> Inl e
      | Inr s1 \<Rightarrow>
          Inr (if deck s1 = [] \<and> truthyOpt (trumpCard s1) then s1\<lparr>trumpCard := None\<rparr>
               else s1))"

text \<open>The body of the loop of \<^verbatim>\<open>checkWinner\<close> for one player.\<close>

definition checkPlayer :: "string \<Rightarrow> gameSession \<Rightarrow> gameSession result" where
  "checkPlayer playerId s =
     (case hands s playerId of
        None \<Rightarrow> Inl TypeError
      | Some hand \<Rightarrow>
          if length hand = 0
          then (case find (\<lambda>p. p \<noteq> playerId) (players s) of
                  None \<Rightarrow> Inr s
                | Some opponent \<Rightarrow>
                    if truthy opponent
                    then (case hands s opponent of
                            None \<Rightarrow> Inl TypeError
                          | Some oh \<Rightarrow>
                              if 0 < length oh
                              then Inr (s\<lparr>winner := Some playerId, phase := Finished,
                                         lastAction := Won playerId\<rparr>)
                              else Inr s)
                    else Inr s)
          else Inr s)"

definition checkWinner :: "gameSession \<Rightarrow> gameSession result" where
  "checkWinner s =
     (if deck s = [] \<and> \<not> truthyOpt (trumpCard s) then forEach checkPlayer (players s) s
      else Inr s)"

subsection \<open>The moves\<close>

definition attack :: "string \<Rightarrow> card \<Rightarrow> gameSession \<Rightarrow> (bool \<times> gameSession) result" where
  "attack playerId c s =
     (if phase s \<noteq> Playing then Inr (False, s)
      else if Some playerId \<noteq> attacker s then Inr (False, s)
      else case hands s playerId of
             None \<Rightarrow> Inl TypeError
           | Some hand \<Rightarrow>
               if c \<notin> set hand then Inr (False, s)
               else if length (table s) = 0
               then (case removeCardFromHand playerId c s of
                       Inl e \<Rightarrow> Inl e
                     | Inr s1 \<Rightarrow>
                         Inr (True, s1\<lparr>table := table s1 @ [CardPair c None],
                                       canThrow := False,
                                       lastAction := Attacks playerId c\<rparr>))
               else Inr (False, s))"

definition defend ::
  "string \<Rightarrow> card \<Rightarrow> card \<Rightarrow> gameSession \<Rightarrow> (bool \<times> gameSession) result" where
  "defend playerId attackCard defenseCard s =
     (if phase s \<noteq> Playing then Inr (False, s)
      else if Some playerId \<noteq> defender s then Inr (False, s)
      else case hands s playerId of
             None \<Rightarrow> Inl TypeError
           | Some hand \<Rightarrow>
               if defenseCard \<notin> set hand then Inr (False, s)
               else (case trumpSuit s of
                       None \<Rightarrow> Inr (False, s)
                     | Some t \<Rightarrow>
                         if \<not> truthy t then Inr (False, s)
                         else if find (\<lambda>p. attackOf p = attackCard \<and> defenseOf p = None)
                                   (table s) = None
                         then Inr (False, s)
                         else if \<not> canBeat attackCard defenseCard t then Inr (False, s)
                         else (case removeCardFromHand playerId defenseCard s of
                                 Inl e \<Rightarrow> Inl e
                               | Inr s1 \<Rightarrow>
                                   let s2 = s1\<lparr>table :=
                                               setDefense attackCard defenseCard (table s1)\<rparr>
                                   in Inr (True,
                                           s2\<lparr>canThrow := allDefended (table s2),
                                              lastAction := Defends playerId defenseCard\<rparr>))))"

text \<open>\<^verbatim>\<open>this.defender ? this.hands[this.defender].length : 0\<close>.\<close>

definition defenderHandSize :: "gameSession \<Rightarrow> nat result" where
  "defenderHandSize s =
     (case defender s of
        None \<Rightarrow> Inr 0
      | Some d \<Rightarrow>
          if truthy d
          then (case hands s d of None \<Rightarrow> Inl TypeError | Some dh \<Rightarrow> Inr (length dh))
          else Inr 0)"

definition throwIn :: "string \<Rightarrow> card \<Rightarrow> gameSession \<Rightarrow> (bool \<times> gameSession) result" where
  "throwIn playerId c s =
     (if phase s \<noteq> Playing then Inr (False, s)
      else if \<not> canThrow s then Inr (False, s)
      else case hands s playerId of
             None \<Rightarrow> Inl TypeError
           | Some hand \<Rightarrow>
               if c \<notin> set hand then Inr (False, s)
               else if \<not> canThrowIn c (tableCards s) then Inr (False, s)
               else (case defenderHandSize s of
                       Inl e \<Rightarrow> Inl e
                     | Inr dhs \<Rightarrow>
                         let undefendedCount =
                               length (filter (\<lambda>p. defenseOf p = None) (table s))
                         in if dhs \<le> undefendedCount then Inr (False, s)
                            else (case removeCardFromHand playerId c s of
                                    Inl e \<Rightarrow> Inl e
                                  | Inr s1 \<Rightarrow>
                                      Inr (True, s1\<lparr>table := table s1 @ [CardPair c None],
                                                    canThrow := False,
                                                    lastAction := ThrowsIn playerId c\<rparr>))))"

definition passTurn :: "string \<Rightarrow> gameSession \<Rightarrow> (bool \<times> gameSession) result" where
  "passTurn playerId s =
     (if phase s \<noteq> Playing then Inr (False, s)
      else if Some playerId \<noteq> attacker s then Inr (False, s)
      else if \<not> allDefended (table s) then Inr (False, s)
      else (case refillHands (s\<lparr>table := [], canThrow := False\<rparr>) of
              Inl e \<Rightarrow> Inl e
            | Inr s1 \<Rightarrow>
                (case checkWinner (s1\<lparr>attacker := defender s1, defender := attacker s1,
                                      lastAction := RoundDone\<rparr>) of
                   Inl e \<Rightarrow> Inl e
                 | Inr s2 \<Rightarrow> Inr (True, s2))))"

text \<open>The block \<^verbatim>\<open>if (this.defender) { ... }\<close> of \<^verbatim>\<open>takeCards\<close>: push the cards of
  the table on the defender's hand and sort it.\<close>

definition takeTable :: "gameSession \<Rightarrow> gameSession result" where
  "takeTable s =
     (case defender s of
        None \<Rightarrow> Inr s
      | Some d \<Rightarrow>
          if truthy d
          then (case hands s d of
                  None \<Rightarrow> Inl TypeError
                | Some dh \<Rightarrow>
                    Inr (s\<lparr>hands := (hands s)(d \<mapsto>
                              sortHand (dh @ tableCards s) (trumpSuit s))\<rparr>))
          else Inr s)"

definition takeCards :: "string \<Rightarrow> gameSession \<Rightarrow> (bool \<times> gameSession) result" where
  "takeCards playerId s =
     (if phase s \<noteq> Playing then Inr (False, s)
      else if Some playerId \<noteq> defender s then Inr (False, s)
      else if length (table s) = 0 then Inr (False, s)
      else (case takeTable s of
              Inl e \<Rightarrow> Inl e
            | Inr s1 \<Rightarrow>
                (case refillHands (s1\<lparr>table := [], canThrow := False\<rparr>) of
                   Inl e \<Rightarrow> Inl e
                 | Inr s2 \<Rightarrow>
                     (case checkWinner (s2\<lparr>lastAction := Took playerId\<rparr>) of
                        Inl e \<Rightarrow> Inl e
                      | Inr s3 \<Rightarrow> Inr (True, s3)))))"

subsection \<open>State views\<close>

text \<open>\<^verbatim>\<open>getState\<close> returns an object with the fields of the session, so the view has
  the type of the session. \<^verbatim>\<open>getStateForPlayer\<close> replaces \<open>hands\<close> by an object built
  over \<open>players\<close>: the requester's own hand, and for everybody else as many
  \<^verbatim>\<open>'back'\<close> strings as the hand has cards.\<close>

definition getState :: "gameSession \<Rightarrow> gameSession" where
  "getState s = s"

definition hideHand ::
  "string \<Rightarrow> gameSession \<Rightarrow> string \<Rightarrow> (string \<rightharpoonup> card list) \<Rightarrow> (string \<rightharpoonup> card list) result"
  where
  "hideHand playerId state pid hiddenHands =
     (if pid = playerId then Inr (hiddenHands(pid := hands state pid))
      else (case hands state pid of
              None \<Rightarrow> Inl TypeError
            | Some hand \<Rightarrow> Inr (hiddenHands(pid \<mapsto> replicate (length hand) ''back''))))"

definition getStateForPlayer :: "string \<Rightarrow> gameSession \<Rightarrow> gameSession result" where
  "getStateForPlayer playerId s =
     (let state = getState s
      in (case forEach (hideHand playerId state) (players s) Map.empty of
            Inl e \<Rightarrow> Inl e
          | Inr hiddenHands \<Rightarrow> Inr (state\<lparr>hands := hiddenHands\<rparr>)))"

subsection \<open>Matches in play\<close>

datatype move =
    Attack string card
  | Defend string card card
  | ThrowIn string card
  | PassTurn string
  | TakeCards string

fun applyMove :: "move \<Rightarrow> gameSession \<Rightarrow> (bool \<times> gameSession) result" where
  "applyMove (Attack p c) s = attack p c s"
| "applyMove (Defend p a d) s = defend p a d s"
| "applyMove (ThrowIn p c) s = throwIn p c s"
| "applyMove (PassTurn p) s = passTurn p s"
| "applyMove (TakeCards p) s = takeCards p s"

text \<open>The sessions a match can be in: a new session that two different players with
  non-empty identifiers joined (the second join deals), and every session that a move
  returns from such a session. The request handlers refuse an empty \<^verbatim>\<open>playerId\<close>, and
  the registry lets nobody join a session that has left the phase \<open>waiting\<close>, so these are
  the sessions the server plays. An exception leaves no session behind.\<close>

inductive reachable :: "gameSession \<Rightarrow> bool" where
  dealt: "\<lbrakk>truthy a; truthy b; a \<noteq> b;
           addPlayer a rnd0 coin0 (newSession rid) = Inr (True, s0);
           addPlayer b rnd coin s0 = Inr (True, s)\<rbrakk> \<Longrightarrow> reachable s"
| moved: "\<lbrakk>reachable s; applyMove m s = Inr (ok, s')\<rbrakk> \<Longrightarrow> reachable s'"

text \<open>The number of cards the session holds: deck, trump indicator, hands of the players
  and both sides of the table.\<close>

definition handSize :: "gameSession \<Rightarrow> string \<Rightarrow> nat" where
  "handSize s p = (case hands s p of None \<Rightarrow> 0 | Some hand \<Rightarrow> length hand)"

definition tableCount :: "cardPair list \<Rightarrow> nat" where
  "tableCount t = (\<Sum>p\<leftarrow>t. 1 + (case defenseOf p of None \<Rightarrow> 0 | Some d \<Rightarrow> 1))"

definition cardCount :: "gameSession \<Rightarrow> nat" where
  "cardCount s =
     length (deck s) + (case trumpCard s of None \<Rightarrow> 0 | Some c \<Rightarrow> 1)
     + (\<Sum>p\<leftarrow>players s. handSize s p) + tableCount (table s)"

text \<open>What holds of every session of a match in play (\<open>reachable_sessionInv\<close> below):
  two different players, who are the attacker and the defender and the only owners of a
  hand; no empty card string anywhere; \<open>canThrow\<close> only when every pair is defended; no
  winner while the match is played; while the deck is not empty, each hand together
  with the table holds at least 6 cards; and no trump indicator is left once the deck is
  empty.\<close>

definition sessionInv :: "gameSession \<Rightarrow> bool" where
  "sessionInv s \<longleftrightarrow>
     (\<exists>x y hx hy.
        attacker s = Some x \<and> defender s = Some y \<and> x \<noteq> y \<and> truthy x \<and> truthy y
        \<and> (players s = [x, y] \<or> players s = [y, x])
        \<and> dom (hands s) = {x, y}
        \<and> hands s x = Some hx \<and> hands s y = Some hy
        \<and> (\<forall>c \<in> set hx. truthy c) \<and> (\<forall>c \<in> set hy. truthy c)
        \<and> (deck s \<noteq> [] \<longrightarrow>
              6 \<le> length hx + tableCount (table s) \<and> 6 \<le> length hy + tableCount (table s)))
     \<and> phase s \<noteq> Waiting
     \<and> (phase s = Playing \<longrightarrow> winner s = None)
     \<and> (canThrow s \<longrightarrow> allDefended (table s))
     \<and> (\<forall>c \<in> set (deck s). truthy c)
     \<and> (\<forall>c. trumpCard s = Some c \<longrightarrow> truthy c)
     \<and> (\<forall>p \<in> set (table s).
           truthy (attackOf p) \<and> (\<forall>d. defenseOf p = Some d \<longrightarrow> truthy d))
     \<and> (deck s = [] \<longrightarrow> trumpCard s = None)"

text \<open>Suit and rank value of a card, as \<^verbatim>\<open>canBeat\<close> reads them.\<close>

definition suitOf :: "card \<Rightarrow> suit" where
  "suitOf c = snd (parseCard c)"

definition rankValue :: "card \<Rightarrow> nat" where
  "rankValue c = (case RANK_VALUES (fst (parseCard c)) of None \<Rightarrow> 0 | Some v \<Rightarrow> v)"

text \<open>Who makes a move: the \<^verbatim>\<open>playerId\<close> argument of the call.\<close>

fun actor :: "move \<Rightarrow> string" where
  "actor (Attack p c) = p"
| "actor (Defend p a d) = p"
| "actor (ThrowIn p c) = p"
| "actor (PassTurn p) = p"
| "actor (TakeCards p) = p"

text \<open>
  The preconditions of the moves in the words of the specification (section 4.2), to be
  compared with what the methods check. Attack: phase \<open>playing\<close>, the actor is the
  attacker, the table is empty, the card is in the actor's hand. Defend: phase
  \<open>playing\<close>, the actor is the defender, a table pair has this attack card and no
  defense, the card is in the actor's hand and beats the attack card under the trump suit.
  Throw-in: phase \<open>playing\<close>, any actor, the throw-in flag is set, the card is in the
  actor's hand and shares its rank with a card on the table, and the defender's hand holds
  more cards than there are undefended pairs. Pass: phase \<open>playing\<close>, the actor is the
  attacker, every pair is defended. Take: phase \<open>playing\<close>, the actor is the defender,
  the table is not empty.
\<close>

definition cardOwned :: "gameSession \<Rightarrow> string \<Rightarrow> card \<Rightarrow> bool" where
  "cardOwned s p c = (case hands s p of None \<Rightarrow> False | Some hand \<Rightarrow> c \<in> set hand)"

fun precondition :: "move \<Rightarrow> gameSession \<Rightarrow> bool" where
  "precondition (Attack p c) s \<longleftrightarrow>
     phase s = Playing \<and> attacker s = Some p \<and> table s = [] \<and> cardOwned s p c"
| "precondition (Defend p a d) s \<longleftrightarrow>
     phase s = Playing \<and> defender s = Some p
     \<and> (\<exists>q \<in> set (table s). attackOf q = a \<and> defenseOf q = None)
     \<and> cardOwned s p d
     \<and> (case trumpSuit s of None \<Rightarrow> False | Some t \<Rightarrow> truthy t \<and> canBeat a d t)"
| "precondition (ThrowIn p c) s \<longleftrightarrow>
     phase s = Playing \<and> canThrow s \<and> cardOwned s p c \<and> canThrowIn c (tableCards s)
     \<and> (case defender s of
           None \<Rightarrow> False
         | Some d \<Rightarrow>
             truthy d
             \<and> length (filter (\<lambda>q. defenseOf q = None) (table s)) < handSize s d)"
| "precondition (PassTurn p) s \<longleftrightarrow>
     phase s = Playing \<and> attacker s = Some p \<and> allDefended (table s)"
| "precondition (TakeCards p) s \<longleftrightarrow>
     phase s = Playing \<and> defender s = Some p \<and> table s \<noteq> []"

text \<open>What holds of every session the registry keeps (\<open>managed_seatsInv\<close> below),
  in any phase: the players are different and each has a hand, and while the match is played
  there are two of them and the attacker and the defender are among them.\<close>

definition seatsInv :: "gameSession \<Rightarrow> bool" where
  "seatsInv s \<longleftrightarrow>
     distinct (players s) \<and> (\<forall>p \<in> set (players s). hands s p \<noteq> None)
     \<and> (phase s = Playing \<longrightarrow>
           length (players s) = 2
           \<and> (\<forall>a. attacker s = Some a \<longrightarrow> a \<in> set (players s))
           \<and> (\<forall>d. defender s = Some d \<longrightarrow> d \<in> set (players s)))"

section \<open>An example match\<close>

text \<open>Running a list of moves, as the transport layer does one request after the other; a
  rejected move leaves the session as it is, an exception ends the run.\<close>

fun runMoves :: "move list \<Rightarrow> gameSession \<Rightarrow> gameSession result" where
  "runMoves [] s = Inr s"
| "runMoves (m # ms) s =
     (case applyMove m s of Inl e \<Rightarrow> Inl e | Inr r \<Rightarrow> runMoves ms (snd r))"

text \<open>The cards that leave the session in a move: \<open>passTurn\<close> drops the pairs of the
  table, and the refill of \<open>passTurn\<close> and \<open>takeCards\<close> drops the trump indicator when
  it leaves the deck empty.\<close>

definition discarded :: "move \<Rightarrow> gameSession \<Rightarrow> gameSession \<Rightarrow> nat" where
  "discarded m s s' =
     (case m of
        PassTurn p \<Rightarrow>
          tableCount (table s) + (if deck s' = [] \<and> trumpCard s \<noteq> None then 1 else 0)
      | TakeCards p \<Rightarrow> (if deck s' = [] \<and> trumpCard s \<noteq> None then 1 else 0)
      | _ \<Rightarrow> 0)"

text \<open>A random source for \<^verbatim>\<open>shuffleDeck\<close> and the deck it produces. Players \<open>A\<close>
  and \<open>B\<close> join room \<open>R\<close>; the trump indicator is the ace of spades, nobody is dealt a
  trump, and the draw (\<open>coin = 0\<close>) makes \<open>A\<close> the first attacker.\<close>

definition stackedRnd :: "nat \<Rightarrow> nat" where
  "stackedRnd i =
     [0, 1, 1, 1, 1, 3, 1, 3, 1, 8, 3, 9, 9, 12, 13, 4, 16, 16, 12, 19, 4, 20, 17, 17, 24, 23,
      14, 13, 4, 3, 21, 20, 11, 10, 1, 0] ! i"

definition stackedDeck :: "card list" where
  "stackedDeck =
     [''As'', ''8h'', ''Jh'', ''Qd'', ''Qh'', ''Kh'', ''Js'', ''Qs'', ''Ks'', ''Ah'', ''8s'', ''Ac'',
      ''6d'', ''6c'', ''6s'', ''9s'', ''10c'', ''Kd'', ''9d'', ''7c'', ''7s'', ''10s'', ''Kc'', ''Ad'',
      ''Qc'', ''Jc'', ''Jd'', ''10d'', ''10h'', ''9h'', ''9c'', ''8c'', ''8d'', ''7d'', ''7h'', ''6h'']"

text \<open>The sessions of the match: after the deal; after \<open>A\<close> attacks with the 6 of hearts;
  after \<open>B\<close> defends with the 7 of hearts; after \<open>A\<close> then passes (\<open>exEarlyPass\<close>), or
  after \<open>B\<close> takes instead of defending (\<open>exTaken\<close>); and along the match in which every
  card is played: the three full rounds (\<open>exRound1\<close>, \<open>exRound2\<close>, \<open>exRound3\<close>), each
  followed by a pass (\<open>exPassed1\<close>, \<open>exPassed2\<close>, \<open>exWon\<close>).\<close>

definition exDealt :: gameSession where
  "exDealt =
     \<lparr>roomId = ''R'', players = [''A'', ''B''],
      hands = [''A'' \<mapsto> [''8c'', ''Jc'', ''7d'', ''10d'', ''6h'', ''9h''],
               ''B'' \<mapsto> [''9c'', ''Qc'', ''8d'', ''Jd'', ''7h'', ''10h'']],
      deck = [''8h'', ''Jh'', ''Qd'', ''Qh'', ''Kh'', ''Js'', ''Qs'', ''Ks'', ''Ah'', ''8s'',
              ''Ac'', ''6d'', ''6c'', ''6s'', ''9s'', ''10c'', ''Kd'', ''9d'', ''7c'', ''7s'',
              ''10s'', ''Kc'', ''Ad''],
      trumpCard = Some ''As'', trumpSuit = Some ''s'',
      table = [],
      attacker = Some ''A'', defender = Some ''B'', phase = Playing, winner = None,
      canThrow = False, lastAction = GameStarted\<rparr>"

definition exAttacked :: gameSession where
  "exAttacked =
     \<lparr>roomId = ''R'', players = [''A'', ''B''],
      hands = [''A'' \<mapsto> [''8c'', ''Jc'', ''7d'', ''10d'', ''9h''],
               ''B'' \<mapsto> [''9c'', ''Qc'', ''8d'', ''Jd'', ''7h'', ''10h'']],
      deck = [''8h'', ''Jh'', ''Qd'', ''Qh'', ''Kh'', ''Js'', ''Qs'', ''Ks'', ''Ah'', ''8s'',
              ''Ac'', ''6d'', ''6c'', ''6s'', ''9s'', ''10c'', ''Kd'', ''9d'', ''7c'', ''7s'',
              ''10s'', ''Kc'', ''Ad''],
      trumpCard = Some ''As'', trumpSuit = Some ''s'',
      table = [CardPair ''6h'' None],
      attacker = Some ''A'', defender = Some ''B'', phase = Playing, winner = None,
      canThrow = False, lastAction = Attacks ''A'' ''6h''\<rparr>"

definition exDefended :: gameSession where
  "exDefended =
     \<lparr>roomId = ''R'', players = [''A'', ''B''],
      hands = [''A'' \<mapsto> [''8c'', ''Jc'', ''7d'', ''10d'', ''9h''],
               ''B'' \<mapsto> [''9c'', ''Qc'', ''8d'', ''Jd'', ''10h'']],
      deck = [''8h'', ''Jh'', ''Qd'', ''Qh'', ''Kh'', ''Js'', ''Qs'', ''Ks'', ''Ah'', ''8s'',
              ''Ac'', ''6d'', ''6c'', ''6s'', ''9s'', ''10c'', ''Kd'', ''9d'', ''7c'', ''7s'',
              ''10s'', ''Kc'', ''Ad''],
      trumpCard = Some ''As'', trumpSuit = Some ''s'',
      table = [CardPair ''6h'' (Some ''7h'')],
      attacker = Some ''A'', defender = Some ''B'', phase = Playing, winner = None,
      canThrow = True, lastAction = Defends ''B'' ''7h''\<rparr>"

definition exEarlyPass :: gameSession where
  "exEarlyPass =
     \<lparr>roomId = ''R'', players = [''A'', ''B''],
      hands = [''A'' \<mapsto> [''8c'', ''Jc'', ''7d'', ''10d'', ''Ad'', ''9h''],
               ''B'' \<mapsto> [''9c'', ''Qc'', ''Kc'', ''8d'', ''Jd'', ''10h'']],
      deck = [''8h'', ''Jh'', ''Qd'', ''Qh'', ''Kh'', ''Js'', ''Qs'', ''Ks'', ''Ah'', ''8s'',
              ''Ac'', ''6d'', ''6c'', ''6s'', ''9s'', ''10c'', ''Kd'', ''9d'', ''7c'', ''7s'',
              ''10s''],
      trumpCard = Some ''As'', trumpSuit = Some ''s'',
      table = [],
      attacker = Some ''B'', defender = Some ''A'', phase = Playing, winner = None,
      canThrow = False, lastAction = RoundDone\<rparr>"

definition exTaken :: gameSession where
  "exTaken =
     \<lparr>roomId = ''R'', players = [''A'', ''B''],
      hands = [''A'' \<mapsto> [''8c'', ''Jc'', ''7d'', ''10d'', ''Ad'', ''9h''],
               ''B'' \<mapsto> [''9c'', ''Qc'', ''8d'', ''Jd'', ''6h'', ''7h'', ''10h'']],
      deck = [''8h'', ''Jh'', ''Qd'', ''Qh'', ''Kh'', ''Js'', ''Qs'', ''Ks'', ''Ah'', ''8s'',
              ''Ac'', ''6d'', ''6c'', ''6s'', ''9s'', ''10c'', ''Kd'', ''9d'', ''7c'', ''7s'',
              ''10s'', ''Kc''],
      trumpCard = Some ''As'', trumpSuit = Some ''s'',
      table = [],
      attacker = Some ''A'', defender = Some ''B'', phase = Playing, winner = None,
      canThrow = False, lastAction = Took ''B''\<rparr>"

definition exRound1 :: gameSession where
  "exRound1 =
     \<lparr>roomId = ''R'', players = [''A'', ''B''],
      hands = [''A'' \<mapsto> [],
               ''B'' \<mapsto> []],
      deck = [''8h'', ''Jh'', ''Qd'', ''Qh'', ''Kh'', ''Js'', ''Qs'', ''Ks'', ''Ah'', ''8s'',
              ''Ac'', ''6d'', ''6c'', ''6s'', ''9s'', ''10c'', ''Kd'', ''9d'', ''7c'', ''7s'',
              ''10s'', ''Kc'', ''Ad''],
      trumpCard = Some ''As'', trumpSuit = Some ''s'',
      table = [CardPair ''6h'' (Some ''7h''), CardPair ''7d'' (Some ''8d''),
              CardPair ''8c'' (Some ''9c''), CardPair ''9h'' (Some ''10h''),
              CardPair ''10d'' (Some ''Jd''), CardPair ''Jc'' (Some ''Qc'')],
      attacker = Some ''A'', defender = Some ''B'', phase = Playing, winner = None,
      canThrow = True, lastAction = Defends ''B'' ''Qc''\<rparr>"

definition exPassed1 :: gameSession where
  "exPassed1 =
     \<lparr>roomId = ''R'', players = [''A'', ''B''],
      hands = [''A'' \<mapsto> [''7c'', ''Kc'', ''9d'', ''Ad'', ''7s'', ''10s''],
               ''B'' \<mapsto> [''6c'', ''10c'', ''6d'', ''Kd'', ''6s'', ''9s'']],
      deck = [''8h'', ''Jh'', ''Qd'', ''Qh'', ''Kh'', ''Js'', ''Qs'', ''Ks'', ''Ah'', ''8s'',
              ''Ac''],
      trumpCard = Some ''As'', trumpSuit = Some ''s'',
      table = [],
      attacker = Some ''B'', defender = Some ''A'', phase = Playing, winner = None,
      canThrow = False, lastAction = RoundDone\<rparr>"

definition exRound2 :: gameSession where
  "exRound2 =
     \<lparr>roomId = ''R'', players = [''A'', ''B''],
      hands = [''A'' \<mapsto> [],
               ''B'' \<mapsto> []],
      deck = [''8h'', ''Jh'', ''Qd'', ''Qh'', ''Kh'', ''Js'', ''Qs'', ''Ks'', ''Ah'', ''8s'',
              ''Ac''],
      trumpCard = Some ''As'', trumpSuit = Some ''s'',
      table = [CardPair ''6d'' (Some ''9d''), CardPair ''6c'' (Some ''7c''),
              CardPair ''6s'' (Some ''7s''), CardPair ''9s'' (Some ''10s''),
              CardPair ''10c'' (Some ''Kc''), CardPair ''Kd'' (Some ''Ad'')],
      attacker = Some ''B'', defender = Some ''A'', phase = Playing, winner = None,
      canThrow = True, lastAction = Defends ''A'' ''Ad''\<rparr>"

definition exPassed2 :: gameSession where
  "exPassed2 =
     \<lparr>roomId = ''R'', players = [''A'', ''B''],
      hands = [''A'' \<mapsto> [''Qd'', ''8h'', ''Jh'', ''Qh'', ''Kh''],
               ''B'' \<mapsto> [''Ac'', ''Ah'', ''8s'', ''Js'', ''Qs'', ''Ks'']],
      deck = [],
      trumpCard = None, trumpSuit = Some ''s'',
      table = [],
      attacker = Some ''A'', defender = Some ''B'', phase = Playing, winner = None,
      canThrow = False, lastAction = RoundDone\<rparr>"

definition exRound3 :: gameSession where
  "exRound3 =
     \<lparr>roomId = ''R'', players = [''A'', ''B''],
      hands = [''A'' \<mapsto> [],
               ''B'' \<mapsto> [''Ac'']],
      deck = [],
      trumpCard = None, trumpSuit = Some ''s'',
      table = [CardPair ''8h'' (Some ''Js''), CardPair ''Jh'' (Some ''Qs''),
              CardPair ''Qd'' (Some ''Ks''), CardPair ''Qh'' (Some ''Ah''),
              CardPair ''Kh'' (Some ''8s'')],
      attacker = Some ''A'', defender = Some ''B'', phase = Playing, winner = None,
      canThrow = True, lastAction = Defends ''B'' ''8s''\<rparr>"

definition exWon :: gameSession where
  "exWon =
     \<lparr>roomId = ''R'', players = [''A'', ''B''],
      hands = [''A'' \<mapsto> [],
               ''B'' \<mapsto> [''Ac'']],
      deck = [],
      trumpCard = None, trumpSuit = Some ''s'',
      table = [],
      attacker = Some ''B'', defender = Some ''A'', phase = Finished, winner = Some ''A'',
      canThrow = False, lastAction = Won ''A''\<rparr>"

text \<open>A second line from the deal, in which \<open>B\<close> takes twice (\<open>exTookTwice\<close>),
  then defends and becomes the attacker with eight cards against six (\<open>exTurned\<close>).
  \<open>B\<close> plays six of them: before the last defense \<open>A\<close> holds one card and one pair
  is undefended (\<open>exThrown\<close>); after it \<open>A\<close> holds no card, every pair is defended
  and \<open>B\<close> still holds a 10, the rank of a card on the table (\<open>exSpent\<close>).\<close>

definition exTookTwice :: gameSession where
  "exTookTwice =
     \<lparr>roomId = ''R'', players = [''A'', ''B''],
      hands = [''A'' \<mapsto> [''Jc'', ''Kc'', ''Ad'', ''6h'', ''9h'', ''10s''],
               ''B'' \<mapsto> [''8c'', ''9c'', ''Qc'', ''7d'', ''8d'', ''10d'', ''Jd'', ''7h'', ''10h'']],
      deck = [''8h'', ''Jh'', ''Qd'', ''Qh'', ''Kh'', ''Js'', ''Qs'', ''Ks'', ''Ah'', ''8s'',
              ''Ac'', ''6d'', ''6c'', ''6s'', ''9s'', ''10c'', ''Kd'', ''9d'', ''7c'', ''7s''],
      trumpCard = Some ''As'', trumpSuit = Some ''s'',
      table = [],
      attacker = Some ''A'', defender = Some ''B'', phase = Playing, winner = None,
      canThrow = False, lastAction = Took ''B''\<rparr>"

definition exTurned :: gameSession where
  "exTurned =
     \<lparr>roomId = ''R'', players = [''A'', ''B''],
      hands = [''A'' \<mapsto> [''Jc'', ''Kc'', ''Ad'', ''9h'', ''7s'', ''10s''],
               ''B'' \<mapsto> [''8c'', ''9c'', ''Qc'', ''7d'', ''8d'', ''10d'', ''Jd'', ''7h'']],
      deck = [''8h'', ''Jh'', ''Qd'', ''Qh'', ''Kh'', ''Js'', ''Qs'', ''Ks'', ''Ah'', ''8s'',
              ''Ac'', ''6d'', ''6c'', ''6s'', ''9s'', ''10c'', ''Kd'', ''9d'', ''7c''],
      trumpCard = Some ''As'', trumpSuit = Some ''s'',
      table = [],
      attacker = Some ''B'', defender = Some ''A'', phase = Playing, winner = None,
      canThrow = False, lastAction = RoundDone\<rparr>"

definition exThrown :: gameSession where
  "exThrown =
     \<lparr>roomId = ''R'', players = [''A'', ''B''],
      hands = [''A'' \<mapsto> [''Kc''],
               ''B'' \<mapsto> [''Qc'', ''10d'']],
      deck = [''8h'', ''Jh'', ''Qd'', ''Qh'', ''Kh'', ''Js'', ''Qs'', ''Ks'', ''Ah'', ''8s'',
              ''Ac'', ''6d'', ''6c'', ''6s'', ''9s'', ''10c'', ''Kd'', ''9d'', ''7c''],
      trumpCard = Some ''As'', trumpSuit = Some ''s'',
      table = [CardPair ''8c'' (Some ''Jc''), CardPair ''8d'' (Some ''Ad''),
               CardPair ''Jd'' (Some ''7s''), CardPair ''7d'' (Some ''10s''),
               CardPair ''7h'' (Some ''9h''), CardPair ''9c'' None],
      attacker = Some ''B'', defender = Some ''A'', phase = Playing, winner = None,
      canThrow = False, lastAction = ThrowsIn ''B'' ''9c''\<rparr>"

definition exSpent :: gameSession where
  "exSpent =
     \<lparr>roomId = ''R'', players = [''A'', ''B''],
      hands = [''A'' \<mapsto> [],
               ''B'' \<mapsto> [''Qc'', ''10d'']],
      deck = [''8h'', ''Jh'', ''Qd'', ''Qh'', ''Kh'', ''Js'', ''Qs'', ''Ks'', ''Ah'', ''8s'',
              ''Ac'', ''6d'', ''6c'', ''6s'', ''9s'', ''10c'', ''Kd'', ''9d'', ''7c''],
      trumpCard = Some ''As'', trumpSuit = Some ''s'',
      table = [CardPair ''8c'' (Some ''Jc''), CardPair ''8d'' (Some ''Ad''),
               CardPair ''Jd'' (Some ''7s''), CardPair ''7d'' (Some ''10s''),
               CardPair ''7h'' (Some ''9h''), CardPair ''9c'' (Some ''Kc'')],
      attacker = Some ''B'', defender = Some ''A'', phase = Playing, winner = None,
      canThrow = True, lastAction = Defends ''A'' ''Kc''\<rparr>"

text \<open>The last round of the match again, with \<open>B\<close> taking the table instead of
  defending the last attack: before the take (\<open>exCornered\<close>) and after it
  (\<open>exGaveUp\<close>).\<close>

definition exCornered :: gameSession where
  "exCornered =
     \<lparr>roomId = ''R'', players = [''A'', ''B''],
      hands = [''A'' \<mapsto> [],
               ''B'' \<mapsto> [''Ac'', ''8s'']],
      deck = [],
      trumpCard = None, trumpSuit = Some ''s'',
      table = [CardPair ''8h'' (Some ''Js''), CardPair ''Jh'' (Some ''Qs''),
               CardPair ''Qd'' (Some ''Ks''), CardPair ''Qh'' (Some ''Ah''),
               CardPair ''Kh'' None],
      attacker = Some ''A'', defender = Some ''B'', phase = Playing, winner = None,
      canThrow = False, lastAction = ThrowsIn ''A'' ''Kh''\<rparr>"

definition exGaveUp :: gameSession where
  "exGaveUp =
     \<lparr>roomId = ''R'', players = [''A'', ''B''],
      hands = [''A'' \<mapsto> [],
               ''B'' \<mapsto> [''Ac'', ''Qd'', ''8h'', ''Jh'', ''Qh'', ''Kh'', ''Ah'', ''8s'', ''Js'',
                       ''Qs'', ''Ks'']],
      deck = [],
      trumpCard = None, trumpSuit = Some ''s'',
      table = [],
      attacker = Some ''A'', defender = Some ''B'', phase = Finished, winner = Some ''A'',
      canThrow = False, lastAction = Won ''A''\<rparr>"

text \<open>A session that no match reaches (\<open>hands_not_all_empty\<close> below): the end of the
  last round with the last card of \<open>B\<close> removed, so that both hands are empty; and what
  \<open>passTurn\<close> makes of it.\<close>

definition exBothOut :: gameSession where
  "exBothOut =
     \<lparr>roomId = ''R'', players = [''A'', ''B''],
      hands = [''A'' \<mapsto> [],
               ''B'' \<mapsto> []],
      deck = [],
      trumpCard = None, trumpSuit = Some ''s'',
      table = [CardPair ''8h'' (Some ''Js''), CardPair ''Jh'' (Some ''Qs''),
              CardPair ''Qd'' (Some ''Ks''), CardPair ''Qh'' (Some ''Ah''),
              CardPair ''Kh'' (Some ''8s'')],
      attacker = Some ''A'', defender = Some ''B'', phase = Playing, winner = None,
      canThrow = True, lastAction = Defends ''B'' ''8s''\<rparr>"

definition exNobodyWon :: gameSession where
  "exNobodyWon =
     \<lparr>roomId = ''R'', players = [''A'', ''B''],
      hands = [''A'' \<mapsto> [],
               ''B'' \<mapsto> []],
      deck = [],
      trumpCard = None, trumpSuit = Some ''s'',
      table = [],
      attacker = Some ''B'', defender = Some ''A'', phase = Playing, winner = None,
      canThrow = False, lastAction = RoundDone\<rparr>"

text \<open>What \<^verbatim>\<open>getStateForPlayer('A')\<close> returns after the deal.\<close>

definition exViewA :: gameSession where
  "exViewA =
     \<lparr>roomId = ''R'', players = [''A'', ''B''],
      hands = [''A'' \<mapsto> [''8c'', ''Jc'', ''7d'', ''10d'', ''6h'', ''9h''],
               ''B'' \<mapsto> [''back'', ''back'', ''back'', ''back'', ''back'', ''back'']],
      deck = [''8h'', ''Jh'', ''Qd'', ''Qh'', ''Kh'', ''Js'', ''Qs'', ''Ks'', ''Ah'', ''8s'', ''Ac'',
              ''6d'', ''6c'', ''6s'', ''9s'', ''10c'', ''Kd'', ''9d'', ''7c'', ''7s'', ''10s'', ''Kc'',
              ''Ad''],
      trumpCard = Some ''As'', trumpSuit = Some ''s'',
      table = [],
      attacker = Some ''A'', defender = Some ''B'', phase = Playing, winner = None,
      canThrow = False, lastAction = GameStarted\<rparr>"

section \<open>The match registry (backend/src/game/GameManager.ts)\<close>

text \<open>
  The two \<^verbatim>\<open>Map\<close>s of the manager are association lists in insertion order:
  \<^verbatim>\<open>get\<close> is \<open>map_of\<close>, \<^verbatim>\<open>set\<close> is \<open>AList.update\<close> (in place for a key that
  is there, at the end for a new one) and \<^verbatim>\<open>delete\<close> is \<open>AList.delete\<close>.
\<close>

record gameManager =
  sessions :: "(string \<times> gameSession) list"
  playerRooms :: "(string \<times> string) list"

definition newManager :: gameManager where
  "newManager = \<lparr>sessions = [], playerRooms = []\<rparr>"

text \<open>The results \<^verbatim>\<open>{ success, roomId?, error? }\<close>: the error texts are in Russian, the
  model keeps which of them it is.\<close>

datatype failure = AlreadyInRoom | RoomNotFound | RoomFull | AlreadyStarted | NotInRoom

datatype 'a outcome = Success 'a | Failure failure

text \<open>
  \<^verbatim>\<open>generateRoomId\<close> draws 6 characters and calls itself again when the identifier is
  taken. A draw is the function from the position to the random number, reduced to an index
  of \<open>roomChars\<close>; the list of draws is what the random source gives to the successive
  calls, and \<open>None\<close> stands for the recursion that has not ended when the list is used up.
\<close>

definition roomChars :: string where
  "roomChars = ''ABCDEFGHIJKLMNOPQRSTUVWXYZ0123456789''"

definition drawRoomId :: "(nat \<Rightarrow> nat) \<Rightarrow> string" where
  "drawRoomId d = map (\<lambda>i. roomChars ! (d i mod length roomChars)) [0..<6]"

fun generateRoomId :: "(nat \<Rightarrow> nat) list \<Rightarrow> (string \<times> gameSession) list \<Rightarrow> string option" where
  "generateRoomId [] ss = None"
| "generateRoomId (d # ds) ss =
     (let rid = drawRoomId d
      in if map_of ss rid \<noteq> None then generateRoomId ds ss else Some rid)"

definition createRoom ::
  "string \<Rightarrow> (nat \<Rightarrow> nat) list \<Rightarrow> (nat \<Rightarrow> nat) \<Rightarrow> nat \<Rightarrow> gameManager
     \<Rightarrow> (string outcome \<times> gameManager) result option" where
  "createRoom playerId draws rnd coin g =
     (if map_of (playerRooms g) playerId \<noteq> None then Some (Inr (Failure AlreadyInRoom, g))
      else (case generateRoomId draws (sessions g) of
              None \<Rightarrow> None
            | Some rid \<Rightarrow>
                (case addPlayer playerId rnd coin (newSession rid) of
                   Inl e \<Rightarrow> Some (Inl e)
                 | Inr r \<Rightarrow>
                     Some (Inr (Success rid,
                                g\<lparr>sessions := AList.update rid (snd r) (sessions g),
                                  playerRooms :=
                                    AList.update playerId rid (playerRooms g)\<rparr>)))))"

definition joinRoom ::
  "string \<Rightarrow> string \<Rightarrow> (nat \<Rightarrow> nat) \<Rightarrow> nat \<Rightarrow> gameManager
     \<Rightarrow> (unit outcome \<times> gameManager) result" where
  "joinRoom playerId rid rnd coin g =
     (if map_of (playerRooms g) playerId \<noteq> None then Inr (Failure AlreadyInRoom, g)
      else (case map_of (sessions g) rid of
              None \<Rightarrow> Inr (Failure RoomNotFound, g)
            | Some session \<Rightarrow>
                if 2 \<le> length (players session) then Inr (Failure RoomFull, g)
                else if phase session \<noteq> Waiting then Inr (Failure AlreadyStarted, g)
                else (case addPlayer playerId rnd coin session of
                        Inl e \<Rightarrow> Inl e
                      | Inr r \<Rightarrow>
                          Inr (Success (),
                               g\<lparr>sessions := AList.update rid (snd r) (sessions g),
                                 playerRooms :=
                                   AList.update playerId rid (playerRooms g)\<rparr>))))"

definition leaveRoom :: "string \<Rightarrow> gameManager \<Rightarrow> unit outcome \<times> gameManager" where
  "leaveRoom playerId g =
     (case map_of (playerRooms g) playerId of
        None \<Rightarrow> (Failure NotInRoom, g)
      | Some rid \<Rightarrow>
          if \<not> truthy rid then (Failure NotInRoom, g)
          else (case map_of (sessions g) rid of
                  None \<Rightarrow> (Failure RoomNotFound, g)
                | Some session \<Rightarrow>
                    let session' = removePlayer playerId session;
                        g1 = g\<lparr>sessions := AList.update rid session' (sessions g),
                               playerRooms := AList.delete playerId (playerRooms g)\<rparr>
                    in (Success (),
                        if length (players session') = 0
                        then g1\<lparr>sessions := AList.delete rid (sessions g1)\<rparr>
                        else g1)))"

definition getSessionByPlayer :: "string \<Rightarrow> gameManager \<Rightarrow> gameSession option" where
  "getSessionByPlayer playerId g =
     (case map_of (playerRooms g) playerId of
        None \<Rightarrow> None
      | Some rid \<Rightarrow> if \<not> truthy rid then None else map_of (sessions g) rid)"

text \<open>The loops of the two cleanups run over the entries of \<open>sessions\<close> and delete
  along the way; \<open>cleaned\<close> counts the deleted rooms.\<close>

fun cleanupEmptyLoop ::
  "(string \<times> gameSession) list \<Rightarrow> gameManager \<times> nat \<Rightarrow> gameManager \<times> nat" where
  "cleanupEmptyLoop [] acc = acc"
| "cleanupEmptyLoop (e # rest) acc =
     cleanupEmptyLoop rest
       (if length (players (snd e)) = 0
        then ((fst acc)\<lparr>sessions := AList.delete (fst e) (sessions (fst acc))\<rparr>, snd acc + 1)
        else acc)"

definition cleanupEmptyRooms :: "gameManager \<Rightarrow> gameManager \<times> nat" where
  "cleanupEmptyRooms g = cleanupEmptyLoop (sessions g) (g, 0)"

fun cleanupFinishedLoop ::
  "(string \<times> gameSession) list \<Rightarrow> gameManager \<times> nat \<Rightarrow> gameManager \<times> nat" where
  "cleanupFinishedLoop [] acc = acc"
| "cleanupFinishedLoop (e # rest) acc =
     cleanupFinishedLoop rest
       (if phase (snd e) = Finished
        then ((fst acc)\<lparr>sessions := AList.delete (fst e) (sessions (fst acc)),
                        playerRooms :=
                          fold AList.delete (players (snd e)) (playerRooms (fst acc))\<rparr>,
              snd acc + 1)
        else acc)"

definition cleanupFinishedGames :: "gameManager \<Rightarrow> gameManager \<times> nat" where
  "cleanupFinishedGames g = cleanupFinishedLoop (sessions g) (g, 0)"

text \<open>
  The registries the server can be in: the new one, and what \<open>createRoom\<close>, \<open>joinRoom\<close>,
  \<open>leaveRoom\<close> and the two cleanups leave; the request handlers also look up the session of
  a player and call a move on it, which changes the session inside the registry.
\<close>

inductive managed :: "gameManager \<Rightarrow> bool" where
  fresh: "managed newManager"
| created: "\<lbrakk>managed g; createRoom p draws rnd coin g = Some (Inr (out, g'))\<rbrakk> \<Longrightarrow> managed g'"
| joined: "\<lbrakk>managed g; joinRoom p rid rnd coin g = Inr (res, g')\<rbrakk> \<Longrightarrow> managed g'"
| left: "\<lbrakk>managed g; leaveRoom p g = (res, g')\<rbrakk> \<Longrightarrow> managed g'"
| sweptEmpty: "\<lbrakk>managed g; cleanupEmptyRooms g = (g', n)\<rbrakk> \<Longrightarrow> managed g'"
| sweptFinished: "\<lbrakk>managed g; cleanupFinishedGames g = (g', n)\<rbrakk> \<Longrightarrow> managed g'"
| played: "\<lbrakk>managed g; map_of (playerRooms g) p = Some rid;
            getSessionByPlayer p g = Some session; applyMove m session = Inr (ok, session')\<rbrakk>
           \<Longrightarrow> managed (g\<lparr>sessions := AList.update rid session' (sessions g)\<rparr>)"

text \<open>The invariant of the registry: the keys of both maps are unique, a registered player
  is a player of the live match the entry names, and a player of a live match is registered
  for it.\<close>

definition registryInv :: "gameManager \<Rightarrow> bool" where
  "registryInv g \<longleftrightarrow>
     distinct (map fst (sessions g)) \<and> distinct (map fst (playerRooms g))
     \<and> (\<forall>p r. map_of (playerRooms g) p = Some r \<longrightarrow>
           (\<exists>session. map_of (sessions g) r = Some session \<and> p \<in> set (players session)))
     \<and> (\<forall>r session p. map_of (sessions g) r = Some session \<and> p \<in> set (players session) \<longrightarrow>
           map_of (playerRooms g) p = Some r)"

text \<open>The registry after \<open>A\<close> created a room.\<close>

definition exManager :: gameManager where
  "exManager =
     \<lparr>sessions = [(''AAAAAA'', (newSession ''AAAAAA'')\<lparr>players := [''A''],
                                                          hands := [''A'' \<mapsto> []]\<rparr>)],
      playerRooms = [(''A'', ''AAAAAA'')]\<rparr>"

text \<open>The registry once \<open>B\<close> has joined the room of \<open>A\<close>, with the match in the
  session \<open>s\<close>; the room has the identifier that \<open>createRoom\<close> drew.\<close>

definition exRegistry :: "gameSession \<Rightarrow> gameManager" where
  "exRegistry s =
     \<lparr>sessions = [(''AAAAAA'', s\<lparr>roomId := ''AAAAAA''\<rparr>)],
      playerRooms = [(''A'', ''AAAAAA''), (''B'', ''AAAAAA'')]\<rparr>"

section \<open>Facts about the card rules\<close>

lemma generateDeck_unfold:
  "generateDeck =
     [''6h'', ''7h'', ''8h'', ''9h'', ''10h'', ''Jh'', ''Qh'', ''Kh'', ''Ah'',
      ''6d'', ''7d'', ''8d'', ''9d'', ''10d'', ''Jd'', ''Qd'', ''Kd'', ''Ad'',
      ''6c'', ''7c'', ''8c'', ''9c'', ''10c'', ''Jc'', ''Qc'', ''Kc'', ''Ac'',
      ''6s'', ''7s'', ''8s'', ''9s'', ''10s'', ''Js'', ''Qs'', ''Ks'', ''As'']"
  by (simp add: generateDeck_def ranks_def suits_def)

lemma generateDeck_length: "length generateDeck = 36"
  by (simp add: generateDeck_unfold)

lemma generateDeck_distinct: "distinct generateDeck"
  by (simp add: generateDeck_unfold)

lemma generateDeck_member:
  "c \<in> set generateDeck \<longleftrightarrow> (\<exists>r \<in> set ranks. \<exists>u \<in> set suits. c = r @ u)"
  by (auto simp: generateDeck_def)

lemma parseCard_wf:
  assumes "r \<in> set ranks" "u \<in> set suits"
  shows "parseCard (r @ u) = (r, u)"
  using assms by (auto simp: parseCard_def suits_def)

lemma RANK_VALUES_wf:
  assumes "r \<in> set ranks"
  shows "\<exists>v. RANK_VALUES r = Some v \<and> 6 \<le> v \<and> v \<le> 14"
  using assms by (auto simp: ranks_def RANK_VALUES_def)

lemma js_gt_Some [simp]: "js_gt (Some x) (Some y) = (y < x)"
  by (simp add: js_gt_def)

text \<open>
  Claim C2. For well-formed cards (the 36 cards of the deck) and any trump suit,
  \<open>canBeat attack defense trump\<close> holds exactly when (a) both cards have the same
  non-trump suit and the defense rank is higher, or (b) both are trumps and the defense rank
  is higher, or (c) the defense is a trump and the attack is not; in particular it is false
  when the attack is a trump and the defense is not.
\<close>

theorem canBeat_cases:
  assumes "attackCard \<in> set generateDeck" and "defenseCard \<in> set generateDeck"
  shows "(canBeat attackCard defenseCard trump \<longleftrightarrow>
            (suitOf attackCard = suitOf defenseCard \<and> suitOf attackCard \<noteq> trump
               \<and> rankValue attackCard < rankValue defenseCard)
          \<or> (suitOf attackCard = trump \<and> suitOf defenseCard = trump
               \<and> rankValue attackCard < rankValue defenseCard)
          \<or> (suitOf defenseCard = trump \<and> suitOf attackCard \<noteq> trump))
       \<and> (suitOf attackCard = trump \<and> suitOf defenseCard \<noteq> trump
            \<longrightarrow> \<not> canBeat attackCard defenseCard trump)"
proof -
  from assms(1) obtain ra ua where a: "ra \<in> set ranks" "ua \<in> set suits" "attackCard = ra @ ua"
    by (auto simp: generateDeck_member)
  from assms(2) obtain rd ud where d: "rd \<in> set ranks" "ud \<in> set suits" "defenseCard = rd @ ud"
    by (auto simp: generateDeck_member)
  from RANK_VALUES_wf [OF a(1)] obtain va where va: "RANK_VALUES ra = Some va" by blast
  from RANK_VALUES_wf [OF d(1)] obtain vd where vd: "RANK_VALUES rd = Some vd" by blast
  have pa: "parseCard attackCard = (ra, ua)" using a by (simp add: parseCard_wf)
  have pd: "parseCard defenseCard = (rd, ud)" using d by (simp add: parseCard_wf)
  show ?thesis
    by (auto simp: canBeat_def Let_def suitOf_def rankValue_def pa pd va vd)
qed

theorem canBeat_cases_witness:
  "''7h'' \<in> set generateDeck \<and> ''6s'' \<in> set generateDeck
   \<and> \<not> canBeat ''7h'' ''6s'' ''h'' \<and> canBeat ''7h'' ''6s'' ''s''
   \<and> canBeat ''7h'' ''8h'' ''s'' \<and> canBeat ''6s'' ''7s'' ''s''"
proof -
  have m: "''7h'' \<in> set generateDeck" "''6s'' \<in> set generateDeck"
    "''8h'' \<in> set generateDeck" "''7s'' \<in> set generateDeck"
    by (simp_all add: generateDeck_unfold)
  have v: "suitOf ''7h'' = ''h''" "suitOf ''6s'' = ''s''" "suitOf ''8h'' = ''h''"
    "suitOf ''7s'' = ''s''" "rankValue ''7h'' = 7" "rankValue ''8h'' = 8"
    "rankValue ''6s'' = 6" "rankValue ''7s'' = 7"
    by (simp_all add: suitOf_def rankValue_def parseCard_def RANK_VALUES_def)
  show ?thesis
    using canBeat_cases [OF m(1) m(2), of "''h''"] canBeat_cases [OF m(1) m(2), of "''s''"]
      canBeat_cases [OF m(1) m(3), of "''s''"] canBeat_cases [OF m(2) m(4), of "''s''"]
    by (simp add: m v)
qed


section \<open>Facts about the state machine\<close>


lemma forEach_frame:
  assumes "\<And>x s s'. f x s = Inr s' \<Longrightarrow> R s s'"
    and "\<And>s. R s s" and "\<And>s1 s2 s3. R s1 s2 \<Longrightarrow> R s2 s3 \<Longrightarrow> R s1 s3"
    and "forEach f xs s = Inr s'"
  shows "R s s'"
  using assms(4)
proof (induction xs arbitrary: s)
  case Nil
  then show ?case using assms(2) by simp
next
  case (Cons x xs)
  from Cons.prems obtain s1 where a: "f x s = Inr s1" and b: "forEach f xs s1 = Inr s'"
    by (auto split: sum.splits)
  from assms(1) [OF a] Cons.IH [OF b] assms(3) show ?case by blast
qed

lemma sortHand_insert_length: "length (insertSorted cmp c xs) = Suc (length xs)"
  by (induction xs) auto

lemma sortHand_insert_mset: "mset (insertSorted cmp c xs) = add_mset c (mset xs)"
  by (induction xs) auto

lemma sortHand_mset [simp]: "mset (sortHand hand t) = mset hand"
  by (induction hand) (auto simp: sortHand_def sortHand_insert_mset)

lemma sortHand_length [simp]: "length (sortHand hand t) = length hand"
  using sortHand_mset [of hand t] by (metis size_mset)

lemma sortHand_set [simp]: "set (sortHand hand t) = set hand"
  using sortHand_mset [of hand t] by (metis set_mset_mset)

lemma sortHand_Nil [simp]: "sortHand hand t = [] \<longleftrightarrow> hand = []"
  by (metis length_0_conv sortHand_length)

lemma drawUpTo_props:
  assumes "\<forall>c \<in> set dk. truthy c" and "drawUpTo h dk = (h', dk')"
  shows "length h' + length dk' = length h + length dk
       \<and> length h \<le> length h'
       \<and> (dk' \<noteq> [] \<longrightarrow> 6 \<le> length h')
       \<and> set h' \<subseteq> set h \<union> set dk \<and> set dk' \<subseteq> set dk
       \<and> (6 \<le> length h \<longrightarrow> h' = h \<and> dk' = dk)"
  using assms
proof (induction h dk rule: drawUpTo.induct)
  case (1 hand dk)
  show ?case
  proof (cases "length hand < 6 \<and> 0 < length dk")
    case True
    then have ne: "dk \<noteq> []" by auto
    have tl: "truthy (last dk)" using "1.prems"(1) ne by simp
    have sub: "\<forall>c \<in> set (butlast dk). truthy c"
      using "1.prems"(1) by (meson in_set_butlastD)
    have "drawUpTo hand dk = drawUpTo (hand @ [last dk]) (butlast dk)"
      by (subst drawUpTo.simps) (use True tl ne in auto)
    then have eq: "drawUpTo (hand @ [last dk]) (butlast dk) = (h', dk')"
      using "1.prems"(2) by simp
    have eq': "drawUpTo (if truthy (last dk) then hand @ [last dk] else hand) (butlast dk) = (h', dk')"
      using eq tl by simp
    note ih = "1.IH" [OF True sub eq']
    have s1: "set (butlast dk) \<subseteq> set dk" by (meson in_set_butlastD subsetI)
    have s2: "last dk \<in> set dk" using ne by simp
    have l: "length (butlast dk) = length dk - 1" "0 < length dk" using ne by simp_all
    have c1: "length h' + length dk' = length hand + length dk" using ih l tl by simp
    have c2: "length hand \<le> length h'" using ih tl by simp
    have c3: "set h' \<subseteq> set hand \<union> set dk" using ih s1 s2 tl by auto
    have c4: "set dk' \<subseteq> set dk" using ih s1 by blast
    have c5: "dk' \<noteq> [] \<longrightarrow> 6 \<le> length h'" using ih by blast
    have c6: "\<not> 6 \<le> length hand" using True by simp
    from c1 c2 c3 c4 c5 c6 show ?thesis by blast
  next
    case False
    have "drawUpTo hand dk = (hand, dk)"
      by (subst drawUpTo.simps) (use False in auto)
    then have "h' = hand" "dk' = dk"
      using "1.prems"(2) by simp_all
    with False show ?thesis by auto
  qed
qed


lemma refillHands_effect:
  assumes "attacker s = Some x" "defender s = Some y" "truthy x" "truthy y" "x \<noteq> y"
    "hands s x = Some hx" "hands s y = Some hy"
  shows "refillHands s =
     Inr (let rx = drawUpTo hx (deck s); ry = drawUpTo hy (snd rx);
              s1 = s\<lparr>deck := snd ry,
                      hands := (hands s)(x \<mapsto> sortHand (fst rx) (trumpSuit s),
                                         y \<mapsto> sortHand (fst ry) (trumpSuit s))\<rparr>
          in if snd ry = [] \<and> truthyOpt (trumpCard s) then s1\<lparr>trumpCard := None\<rparr> else s1)"
  using assms
  by (simp add: refillHands_def refillOrder_def refillPlayer_def Let_def)

lemma checkWinner_effect:
  assumes "players s = [a, b]" "a \<noteq> b" "truthy a" "truthy b"
    "hands s a = Some ha" "hands s b = Some hb"
  shows "checkWinner s =
     Inr (if deck s = [] \<and> \<not> truthyOpt (trumpCard s)
          then (if ha = [] \<and> hb \<noteq> []
                then s\<lparr>winner := Some a, phase := Finished, lastAction := Won a\<rparr>
                else if hb = [] \<and> ha \<noteq> []
                then s\<lparr>winner := Some b, phase := Finished, lastAction := Won b\<rparr>
                else s)
          else s)"
  using assms
  by (simp add: checkWinner_def checkPlayer_def)


lemma attack_False: "attack p c s = Inr (False, s') \<Longrightarrow> s' = s"
  by (auto simp: attack_def removeCardFromHand_def split: if_splits option.splits sum.splits)

lemma defend_False: "defend p a d s = Inr (False, s') \<Longrightarrow> s' = s"
  by (auto simp: defend_def removeCardFromHand_def Let_def
      split: if_splits option.splits sum.splits)

lemma throwIn_False: "throwIn p c s = Inr (False, s') \<Longrightarrow> s' = s"
  by (auto simp: throwIn_def removeCardFromHand_def Let_def
      split: if_splits option.splits sum.splits)

lemma passTurn_False: "passTurn p s = Inr (False, s') \<Longrightarrow> s' = s"
  by (auto simp: passTurn_def split: if_splits sum.splits)

lemma takeCards_False: "takeCards p s = Inr (False, s') \<Longrightarrow> s' = s"
  by (auto simp: takeCards_def split: if_splits sum.splits)

lemma applyMove_False: "applyMove m s = Inr (False, s') \<Longrightarrow> s' = s"
  by (cases m)
    (auto dest: attack_False defend_False throwIn_False passTurn_False takeCards_False)

lemma attack_True:
  assumes "attack p c s = Inr (True, s')"
  shows "\<exists>hand. phase s = Playing \<and> attacker s = Some p \<and> hands s p = Some hand
           \<and> c \<in> set hand \<and> table s = []
           \<and> s' = s\<lparr>hands := (hands s)(p \<mapsto> remove1 c hand), table := [CardPair c None],
                    canThrow := False, lastAction := Attacks p c\<rparr>"
  using assms
  by (auto simp: attack_def removeCardFromHand_def split: if_splits option.splits sum.splits)

lemma defend_True:
  assumes "defend p a d s = Inr (True, s')"
  shows "\<exists>hand t. phase s = Playing \<and> defender s = Some p \<and> hands s p = Some hand
           \<and> d \<in> set hand \<and> trumpSuit s = Some t \<and> truthy t
           \<and> find (\<lambda>q. attackOf q = a \<and> defenseOf q = None) (table s) \<noteq> None
           \<and> canBeat a d t
           \<and> s' = s\<lparr>hands := (hands s)(p \<mapsto> remove1 d hand),
                    table := setDefense a d (table s),
                    canThrow := allDefended (setDefense a d (table s)),
                    lastAction := Defends p d\<rparr>"
  using assms
  by (auto simp: defend_def removeCardFromHand_def Let_def
      split: if_splits option.splits sum.splits)

lemma throwIn_True:
  assumes "throwIn p c s = Inr (True, s')"
  shows "\<exists>hand dhs. phase s = Playing \<and> canThrow s \<and> hands s p = Some hand
           \<and> c \<in> set hand \<and> canThrowIn c (tableCards s)
           \<and> defenderHandSize s = Inr dhs
           \<and> length (filter (\<lambda>q. defenseOf q = None) (table s)) < dhs
           \<and> s' = s\<lparr>hands := (hands s)(p \<mapsto> remove1 c hand),
                    table := table s @ [CardPair c None],
                    canThrow := False, lastAction := ThrowsIn p c\<rparr>"
  using assms
  by (auto simp: throwIn_def removeCardFromHand_def Let_def
      split: if_splits option.splits sum.splits)

lemma passTurn_True:
  assumes "passTurn p s = Inr (True, s')"
  shows "\<exists>s1. phase s = Playing \<and> attacker s = Some p \<and> allDefended (table s)
           \<and> refillHands (s\<lparr>table := [], canThrow := False\<rparr>) = Inr s1
           \<and> checkWinner (s1\<lparr>attacker := defender s1, defender := attacker s1,
                               lastAction := RoundDone\<rparr>) = Inr s'"
  using assms
  by (auto simp: passTurn_def split: if_splits sum.splits)

lemma takeCards_True:
  assumes "takeCards p s = Inr (True, s')"
  shows "\<exists>s1 s2. phase s = Playing \<and> defender s = Some p \<and> table s \<noteq> []
           \<and> takeTable s = Inr s1
           \<and> refillHands (s1\<lparr>table := [], canThrow := False\<rparr>) = Inr s2
           \<and> checkWinner (s2\<lparr>lastAction := Took p\<rparr>) = Inr s'"
  using assms
  by (auto simp: takeCards_def split: if_splits sum.splits)


lemma refillPlayer_fields:
  "refillPlayer p s = Inr s' \<Longrightarrow>
     roomId s' = roomId s \<and> players s' = players s \<and> trumpCard s' = trumpCard s
     \<and> trumpSuit s' = trumpSuit s \<and> table s' = table s \<and> attacker s' = attacker s
     \<and> defender s' = defender s \<and> phase s' = phase s \<and> winner s' = winner s
     \<and> canThrow s' = canThrow s \<and> lastAction s' = lastAction s"
  by (auto simp: refillPlayer_def Let_def split: option.splits)

lemma refillHands_fields:
  assumes "refillHands s = Inr s'"
  shows "roomId s' = roomId s \<and> players s' = players s
     \<and> trumpSuit s' = trumpSuit s \<and> table s' = table s \<and> attacker s' = attacker s
     \<and> defender s' = defender s \<and> phase s' = phase s \<and> winner s' = winner s
     \<and> canThrow s' = canThrow s \<and> lastAction s' = lastAction s"
proof -
  from assms obtain s1 where f: "forEach refillPlayer (refillOrder s) s = Inr s1"
    and s': "s' = (if deck s1 = [] \<and> truthyOpt (trumpCard s1) then s1\<lparr>trumpCard := None\<rparr> else s1)"
    by (auto simp: refillHands_def split: sum.splits)
  have "roomId s1 = roomId s \<and> players s1 = players s \<and> trumpCard s1 = trumpCard s
     \<and> trumpSuit s1 = trumpSuit s \<and> table s1 = table s \<and> attacker s1 = attacker s
     \<and> defender s1 = defender s \<and> phase s1 = phase s \<and> winner s1 = winner s
     \<and> canThrow s1 = canThrow s \<and> lastAction s1 = lastAction s"
    by (rule forEach_frame [where f = refillPlayer, OF refillPlayer_fields _ _ f]) simp_all
  with s' show ?thesis by simp
qed

lemma checkPlayer_fields:
  "checkPlayer p s = Inr s' \<Longrightarrow>
     roomId s' = roomId s \<and> players s' = players s \<and> hands s' = hands s \<and> deck s' = deck s
     \<and> trumpCard s' = trumpCard s \<and> trumpSuit s' = trumpSuit s \<and> table s' = table s
     \<and> attacker s' = attacker s \<and> defender s' = defender s \<and> canThrow s' = canThrow s"
  by (auto simp: checkPlayer_def split: option.splits if_splits)

lemma checkWinner_fields:
  assumes "checkWinner s = Inr s'"
  shows "roomId s' = roomId s \<and> players s' = players s \<and> hands s' = hands s \<and> deck s' = deck s
     \<and> trumpCard s' = trumpCard s \<and> trumpSuit s' = trumpSuit s \<and> table s' = table s
     \<and> attacker s' = attacker s \<and> defender s' = defender s \<and> canThrow s' = canThrow s"
proof (cases "deck s = [] \<and> \<not> truthyOpt (trumpCard s)")
  case True
  then have f: "forEach checkPlayer (players s) s = Inr s'"
    using assms by (simp add: checkWinner_def)
  show ?thesis
    by (rule forEach_frame [where f = checkPlayer, OF checkPlayer_fields _ _ f]) simp_all
next
  case False
  then have "s' = s" using assms by (auto simp: checkWinner_def)
  then show ?thesis by simp
qed

text \<open>
  Claim C5. \<open>passTurn\<close> returns true only when the caller is the current attacker, the
  phase is \<open>playing\<close> and every pair on the table is defended; after it the table is
  empty and the roles are swapped: the former defender attacks, the former attacker defends.
\<close>

theorem passTurn_success:
  assumes "passTurn p s = Inr (True, s')"
  shows "phase s = Playing \<and> attacker s = Some p
       \<and> (\<forall>pair \<in> set (table s). defenseOf pair \<noteq> None)
       \<and> table s' = [] \<and> attacker s' = defender s \<and> defender s' = attacker s"
proof -
  from passTurn_True [OF assms] obtain s1 where
    a: "phase s = Playing" "attacker s = Some p" "allDefended (table s)"
    and r: "refillHands (s\<lparr>table := [], canThrow := False\<rparr>) = Inr s1"
    and c: "checkWinner (s1\<lparr>attacker := defender s1, defender := attacker s1,
                               lastAction := RoundDone\<rparr>) = Inr s'"
    by blast
  from refillHands_fields [OF r]
  have s1: "table s1 = []" "attacker s1 = attacker s" "defender s1 = defender s" by simp_all
  from checkWinner_fields [OF c]
  have s': "table s' = table s1" "attacker s' = defender s1" "defender s' = attacker s1"
    by simp_all
  from a(3) have "\<forall>pair \<in> set (table s). defenseOf pair \<noteq> None"
    by (simp add: allDefended_def list_all_iff)
  with a s1 s' show ?thesis by simp
qed


lemma sessionInvI:
  assumes "attacker s = Some x" "defender s = Some y" "x \<noteq> y" "truthy x" "truthy y"
    "players s = [x, y] \<or> players s = [y, x]" "dom (hands s) = {x, y}"
    "hands s x = Some hx" "hands s y = Some hy"
    "\<forall>c \<in> set hx. truthy c" "\<forall>c \<in> set hy. truthy c"
    "deck s \<noteq> [] \<longrightarrow>
       6 \<le> length hx + tableCount (table s) \<and> 6 \<le> length hy + tableCount (table s)"
    "phase s \<noteq> Waiting" "phase s = Playing \<longrightarrow> winner s = None"
    "canThrow s \<longrightarrow> allDefended (table s)"
    "\<forall>c \<in> set (deck s). truthy c" "\<forall>c. trumpCard s = Some c \<longrightarrow> truthy c"
    "\<forall>p \<in> set (table s). truthy (attackOf p) \<and> (\<forall>d. defenseOf p = Some d \<longrightarrow> truthy d)"
    "deck s = [] \<longrightarrow> trumpCard s = None"
  shows "sessionInv s"
  unfolding sessionInv_def
  apply (intro conjI)
         apply (rule exI [of _ x], rule exI [of _ y], rule exI [of _ hx], rule exI [of _ hy])
         apply (intro conjI)
  using assms apply simp_all
  done

lemma sessionInvE:
  assumes "sessionInv s"
  obtains x y hx hy where
    "attacker s = Some x" "defender s = Some y" "x \<noteq> y" "truthy x" "truthy y"
    "players s = [x, y] \<or> players s = [y, x]" "dom (hands s) = {x, y}"
    "hands s x = Some hx" "hands s y = Some hy"
    "\<forall>c \<in> set hx. truthy c" "\<forall>c \<in> set hy. truthy c"
    "deck s \<noteq> [] \<longrightarrow>
       6 \<le> length hx + tableCount (table s) \<and> 6 \<le> length hy + tableCount (table s)"
    "phase s \<noteq> Waiting" "phase s = Playing \<longrightarrow> winner s = None"
    "canThrow s \<longrightarrow> allDefended (table s)"
    "\<forall>c \<in> set (deck s). truthy c" "\<forall>c. trumpCard s = Some c \<longrightarrow> truthy c"
    "\<forall>p \<in> set (table s). truthy (attackOf p) \<and> (\<forall>d. defenseOf p = Some d \<longrightarrow> truthy d)"
    "deck s = [] \<longrightarrow> trumpCard s = None"
  using assms unfolding sessionInv_def
  apply (elim conjE exE)
  apply (rule that)
                    apply assumption+
  done

lemma tableCount_append [simp]: "tableCount (t @ u) = tableCount t + tableCount u"
  by (simp add: tableCount_def)

lemma tableCount_Nil [simp]: "tableCount [] = 0"
  by (simp add: tableCount_def)

lemma tableCount_Cons [simp]:
  "tableCount (p # t) = 1 + (case defenseOf p of None \<Rightarrow> 0 | Some d \<Rightarrow> 1) + tableCount t"
  by (simp add: tableCount_def)

lemma length_remove1_mem: "c \<in> set h \<Longrightarrow> Suc (length (remove1 c h)) = length h"
  by (induction h) auto


lemma attack_inv:
  assumes inv: "sessionInv s" and a: "attack p c s = Inr (True, s')"
  shows "sessionInv s'"
proof -
  from inv obtain x y hx hy where f:
    "attacker s = Some x" "defender s = Some y" "x \<noteq> y" "truthy x" "truthy y"
    "players s = [x, y] \<or> players s = [y, x]" "dom (hands s) = {x, y}"
    "hands s x = Some hx" "hands s y = Some hy"
    "\<forall>c \<in> set hx. truthy c" "\<forall>c \<in> set hy. truthy c"
    "deck s \<noteq> [] \<longrightarrow>
       6 \<le> length hx + tableCount (table s) \<and> 6 \<le> length hy + tableCount (table s)"
    "phase s \<noteq> Waiting" "phase s = Playing \<longrightarrow> winner s = None"
    "canThrow s \<longrightarrow> allDefended (table s)"
    "\<forall>c \<in> set (deck s). truthy c" "\<forall>c. trumpCard s = Some c \<longrightarrow> truthy c"
    "\<forall>p \<in> set (table s). truthy (attackOf p) \<and> (\<forall>d. defenseOf p = Some d \<longrightarrow> truthy d)"
    "deck s = [] \<longrightarrow> trumpCard s = None"
    by (rule sessionInvE)
  from attack_True [OF a] f have e: "p = x" "c \<in> set hx" "table s = []" "phase s = Playing"
    and s': "s' = s\<lparr>hands := (hands s)(x \<mapsto> remove1 c hx), table := [CardPair c None],
                    canThrow := False, lastAction := Attacks x c\<rparr>"
    by auto
  have l: "Suc (length (remove1 c hx)) = length hx" using e(2) by (rule length_remove1_mem)
  have t: "\<forall>c' \<in> set (remove1 c hx). truthy c'" using f(10) by (meson notin_set_remove1)
  show ?thesis
  proof (rule sessionInvI [where x = x and y = y and hx = "remove1 c hx" and hy = hy])
    show "deck s' \<noteq> [] \<longrightarrow>
       6 \<le> length (remove1 c hx) + tableCount (table s') \<and> 6 \<le> length hy + tableCount (table s')"
      using f(12) l e(3) by (auto simp: s')
    show "dom (hands s') = {x, y}" using f(7) by (auto simp: s')
  qed (use f e t in \<open>simp_all add: s'\<close>)
qed


lemma checkWinner_two:
  assumes "players s = [x, y] \<or> players s = [y, x]" "x \<noteq> y" "truthy x" "truthy y"
    "hands s x = Some hx" "hands s y = Some hy"
  shows "checkWinner s =
     Inr (if deck s = [] \<and> \<not> truthyOpt (trumpCard s)
          then (if hx = [] \<and> hy \<noteq> []
                then s\<lparr>winner := Some x, phase := Finished, lastAction := Won x\<rparr>
                else if hy = [] \<and> hx \<noteq> []
                then s\<lparr>winner := Some y, phase := Finished, lastAction := Won y\<rparr>
                else s)
          else s)"
proof -
  from assms(1) show ?thesis
  proof
    assume "players s = [x, y]"
    from checkWinner_effect [OF this assms(2-6)] show ?thesis .
  next
    assume p: "players s = [y, x]"
    have "y \<noteq> x" using assms(2) by simp
    from checkWinner_effect [OF p this assms(4) assms(3) assms(6) assms(5)] show ?thesis
      by auto
  qed
qed

lemma refillHands_two:
  assumes "attacker s = Some x" "defender s = Some y" "truthy x" "truthy y" "x \<noteq> y"
    "hands s x = Some hx" "hands s y = Some hy" "\<forall>c \<in> set (deck s). truthy c"
  shows "\<exists>s1 hx1 hy1. refillHands s = Inr s1
      \<and> hands s1 x = Some hx1 \<and> hands s1 y = Some hy1
      \<and> dom (hands s1) = dom (hands s)
      \<and> length hx1 + length hy1 + length (deck s1) = length hx + length hy + length (deck s)
      \<and> length hx \<le> length hx1 \<and> length hy \<le> length hy1
      \<and> (deck s1 \<noteq> [] \<longrightarrow> 6 \<le> length hx1 \<and> 6 \<le> length hy1)
      \<and> (6 \<le> length hx \<or> deck s = [] \<longrightarrow> length hx1 = length hx)
      \<and> (6 \<le> length hy \<or> deck s = [] \<longrightarrow> length hy1 = length hy)
      \<and> set hx1 \<subseteq> set hx \<union> set (deck s) \<and> set hy1 \<subseteq> set hy \<union> set (deck s)
      \<and> set (deck s1) \<subseteq> set (deck s)
      \<and> trumpCard s1 = (if deck s1 = [] \<and> truthyOpt (trumpCard s) then None else trumpCard s)"
proof -
  obtain h1 d1 where r1: "drawUpTo hx (deck s) = (h1, d1)" by (cases "drawUpTo hx (deck s)")
  obtain h2 d2 where r2: "drawUpTo hy d1 = (h2, d2)" by (cases "drawUpTo hy d1")
  from drawUpTo_props [OF assms(8) r1] have p1:
    "length h1 + length d1 = length hx + length (deck s)" "length hx \<le> length h1"
    "d1 \<noteq> [] \<longrightarrow> 6 \<le> length h1" "set h1 \<subseteq> set hx \<union> set (deck s)"
    "set d1 \<subseteq> set (deck s)" "6 \<le> length hx \<longrightarrow> h1 = hx \<and> d1 = deck s"
    by simp_all
  have t1: "\<forall>c \<in> set d1. truthy c" using assms(8) p1(5) by blast
  from drawUpTo_props [OF t1 r2] have p2:
    "length h2 + length d2 = length hy + length d1" "length hy \<le> length h2"
    "d2 \<noteq> [] \<longrightarrow> 6 \<le> length h2" "set h2 \<subseteq> set hy \<union> set d1"
    "set d2 \<subseteq> set d1" "6 \<le> length hy \<longrightarrow> h2 = hy \<and> d2 = d1"
    by simp_all
  define s1 where "s1 = (let u = s\<lparr>deck := d2,
                      hands := (hands s)(x \<mapsto> sortHand h1 (trumpSuit s),
                                         y \<mapsto> sortHand h2 (trumpSuit s))\<rparr>
          in if d2 = [] \<and> truthyOpt (trumpCard s) then u\<lparr>trumpCard := None\<rparr> else u)"
  have e: "refillHands s = Inr s1"
    using refillHands_effect [OF assms(1-7)] r1 r2 by (simp add: s1_def Let_def)
  have hs: "hands s1 x = Some (sortHand h1 (trumpSuit s))"
    "hands s1 y = Some (sortHand h2 (trumpSuit s))" "deck s1 = d2"
    using assms(5) by (simp_all add: s1_def Let_def)
  have dm: "dom (hands s1) = dom (hands s)"
    using assms(6,7) by (auto simp: s1_def Let_def)
  have tc: "trumpCard s1 = (if deck s1 = [] \<and> truthyOpt (trumpCard s) then None else trumpCard s)"
    by (simp add: s1_def Let_def)
  have d1e: "deck s = [] \<longrightarrow> d1 = []" using p1(5) by auto
  have d2e: "d1 = [] \<longrightarrow> d2 = []" using p2(5) by auto
  have c1: "length h1 + length h2 + length d2 = length hx + length hy + length (deck s)"
    using p1(1) p2(1) by linarith
  have c2: "d2 \<noteq> [] \<longrightarrow> 6 \<le> length h1 \<and> 6 \<le> length h2"
    using p1(3) p2(3) d2e by blast
  have c3: "6 \<le> length hx \<or> deck s = [] \<longrightarrow> length h1 = length hx"
    using p1(1,6) d1e by auto
  have c4: "6 \<le> length hy \<or> deck s = [] \<longrightarrow> length h2 = length hy"
    using p2(1,6) d1e d2e by auto
  have c5: "set h2 \<subseteq> set hy \<union> set (deck s)" using p2(4) p1(5) by blast
  have c6: "set d2 \<subseteq> set (deck s)" using p2(5) p1(5) by blast
  show ?thesis
    apply (rule exI [of _ s1], rule exI [of _ "sortHand h1 (trumpSuit s)"],
        rule exI [of _ "sortHand h2 (trumpSuit s)"])
    using e hs dm tc c1 c2 c3 c4 c5 c6 p1(2,4) p2(2) by simp
qed


lemma setDefense_count:
  "find (\<lambda>q. attackOf q = a \<and> defenseOf q = None) t \<noteq> None
     \<Longrightarrow> tableCount (setDefense a d t) = Suc (tableCount t)"
  by (induction t) auto

lemma setDefense_truthy:
  assumes "\<forall>p \<in> set t. truthy (attackOf p) \<and> (\<forall>e. defenseOf p = Some e \<longrightarrow> truthy e)"
    and "truthy d"
  shows "\<forall>p \<in> set (setDefense a d t).
           truthy (attackOf p) \<and> (\<forall>e. defenseOf p = Some e \<longrightarrow> truthy e)"
  using assms by (induction t) auto

lemma defend_inv:
  assumes inv: "sessionInv s" and a: "defend p ac dc s = Inr (True, s')"
  shows "sessionInv s'"
proof -
  from inv obtain x y hx hy where f:
    "attacker s = Some x" "defender s = Some y" "x \<noteq> y" "truthy x" "truthy y"
    "players s = [x, y] \<or> players s = [y, x]" "dom (hands s) = {x, y}"
    "hands s x = Some hx" "hands s y = Some hy"
    "\<forall>c \<in> set hx. truthy c" "\<forall>c \<in> set hy. truthy c"
    "deck s \<noteq> [] \<longrightarrow>
       6 \<le> length hx + tableCount (table s) \<and> 6 \<le> length hy + tableCount (table s)"
    "phase s \<noteq> Waiting" "phase s = Playing \<longrightarrow> winner s = None"
    "canThrow s \<longrightarrow> allDefended (table s)"
    "\<forall>c \<in> set (deck s). truthy c" "\<forall>c. trumpCard s = Some c \<longrightarrow> truthy c"
    "\<forall>p \<in> set (table s). truthy (attackOf p) \<and> (\<forall>d. defenseOf p = Some d \<longrightarrow> truthy d)"
    "deck s = [] \<longrightarrow> trumpCard s = None"
    by (rule sessionInvE)
  from defend_True [OF a] f have e: "p = y" "dc \<in> set hy" "phase s = Playing"
    "find (\<lambda>q. attackOf q = ac \<and> defenseOf q = None) (table s) \<noteq> None"
    and s': "s' = s\<lparr>hands := (hands s)(y \<mapsto> remove1 dc hy),
                    table := setDefense ac dc (table s),
                    canThrow := allDefended (setDefense ac dc (table s)),
                    lastAction := Defends y dc\<rparr>"
    by auto
  have l: "Suc (length (remove1 dc hy)) = length hy" using e(2) by (rule length_remove1_mem)
  have t: "\<forall>c' \<in> set (remove1 dc hy). truthy c'" using f(11) by (meson notin_set_remove1)
  have td: "truthy dc" using f(11) e(2) by blast
  have n: "tableCount (setDefense ac dc (table s)) = Suc (tableCount (table s))"
    using e(4) by (rule setDefense_count)
  note tt = setDefense_truthy [OF f(18) td, of ac]
  show ?thesis
  proof (rule sessionInvI [where x = x and y = y and hx = hx and hy = "remove1 dc hy"])
    show "deck s' \<noteq> [] \<longrightarrow>
       6 \<le> length hx + tableCount (table s') \<and> 6 \<le> length (remove1 dc hy) + tableCount (table s')"
      using f(12) l n by (auto simp: s')
    show "dom (hands s') = {x, y}" using f(7) by (auto simp: s')
    show "\<forall>p \<in> set (table s'). truthy (attackOf p) \<and> (\<forall>d. defenseOf p = Some d \<longrightarrow> truthy d)"
      using tt by (simp add: s')
  qed (use f e t in \<open>simp_all add: s'\<close>)
qed

lemma throwIn_inv:
  assumes inv: "sessionInv s" and a: "throwIn p c s = Inr (True, s')"
  shows "sessionInv s'"
proof -
  from inv obtain x y hx hy where f:
    "attacker s = Some x" "defender s = Some y" "x \<noteq> y" "truthy x" "truthy y"
    "players s = [x, y] \<or> players s = [y, x]" "dom (hands s) = {x, y}"
    "hands s x = Some hx" "hands s y = Some hy"
    "\<forall>c \<in> set hx. truthy c" "\<forall>c \<in> set hy. truthy c"
    "deck s \<noteq> [] \<longrightarrow>
       6 \<le> length hx + tableCount (table s) \<and> 6 \<le> length hy + tableCount (table s)"
    "phase s \<noteq> Waiting" "phase s = Playing \<longrightarrow> winner s = None"
    "canThrow s \<longrightarrow> allDefended (table s)"
    "\<forall>c \<in> set (deck s). truthy c" "\<forall>c. trumpCard s = Some c \<longrightarrow> truthy c"
    "\<forall>p \<in> set (table s). truthy (attackOf p) \<and> (\<forall>d. defenseOf p = Some d \<longrightarrow> truthy d)"
    "deck s = [] \<longrightarrow> trumpCard s = None"
    by (rule sessionInvE)
  from throwIn_True [OF a] obtain hand where e: "phase s = Playing" "hands s p = Some hand"
    "c \<in> set hand"
    and s': "s' = s\<lparr>hands := (hands s)(p \<mapsto> remove1 c hand),
                    table := table s @ [CardPair c None],
                    canThrow := False, lastAction := ThrowsIn p c\<rparr>"
    by auto
  have l: "Suc (length (remove1 c hand)) = length hand" using e(3) by (rule length_remove1_mem)
  from e(2) f(7) have "p = x \<or> p = y" by auto
  then show ?thesis
  proof
    assume px: "p = x"
    then have h: "hand = hx" using e(2) f(8) by simp
    have t: "\<forall>c' \<in> set (remove1 c hx). truthy c'" using f(10) by (meson notin_set_remove1)
    have tc: "truthy c" using f(10) e(3) h by blast
    show ?thesis
    proof (rule sessionInvI [where x = x and y = y and hx = "remove1 c hx" and hy = hy])
      show "deck s' \<noteq> [] \<longrightarrow>
         6 \<le> length (remove1 c hx) + tableCount (table s') \<and> 6 \<le> length hy + tableCount (table s')"
        using f(12) l h by (auto simp: s')
      show "dom (hands s') = {x, y}" using f(7) px by (auto simp: s')
    qed (use f e t tc px h in \<open>simp_all add: s'\<close>)
  next
    assume py: "p = y"
    then have h: "hand = hy" using e(2) f(9) by simp
    have t: "\<forall>c' \<in> set (remove1 c hy). truthy c'" using f(11) by (meson notin_set_remove1)
    have tc: "truthy c" using f(11) e(3) h by blast
    show ?thesis
    proof (rule sessionInvI [where x = x and y = y and hx = hx and hy = "remove1 c hy"])
      show "deck s' \<noteq> [] \<longrightarrow>
         6 \<le> length hx + tableCount (table s') \<and> 6 \<le> length (remove1 c hy) + tableCount (table s')"
        using f(12) l h by (auto simp: s')
      show "dom (hands s') = {x, y}" using f(7) py by (auto simp: s')
    qed (use f e t tc py h in \<open>simp_all add: s'\<close>)
  qed
qed


lemma checkWinner_two_props:
  assumes "players s = [x, y] \<or> players s = [y, x]" "x \<noteq> y" "truthy x" "truthy y"
    "hands s x = Some hx" "hands s y = Some hy"
  shows "\<exists>s'. checkWinner s = Inr s'
     \<and> roomId s' = roomId s \<and> players s' = players s \<and> hands s' = hands s \<and> deck s' = deck s
     \<and> trumpCard s' = trumpCard s \<and> trumpSuit s' = trumpSuit s \<and> table s' = table s
     \<and> attacker s' = attacker s \<and> defender s' = defender s \<and> canThrow s' = canThrow s
     \<and> (phase s' = phase s \<and> winner s' = winner s \<or> phase s' = Finished)
     \<and> (deck s = [] \<and> \<not> truthyOpt (trumpCard s) \<longrightarrow>
           (hx = [] \<and> hy \<noteq> [] \<longrightarrow> winner s' = Some x \<and> phase s' = Finished)
         \<and> (hy = [] \<and> hx \<noteq> [] \<longrightarrow> winner s' = Some y \<and> phase s' = Finished)
         \<and> (hx = [] \<and> hy = [] \<longrightarrow> winner s' = winner s \<and> phase s' = phase s))
     \<and> (deck s \<noteq> [] \<longrightarrow> phase s' = phase s \<and> winner s' = winner s)"
  by (simp add: checkWinner_two [OF assms])

lemma tableCards_truthy: "\<forall>c \<in> set (tableCards s). truthy c"
  by (auto simp: tableCards_def pairCards_def)

lemma tableCards_length:
  assumes "\<forall>p \<in> set t. truthy (attackOf p) \<and> (\<forall>d. defenseOf p = Some d \<longrightarrow> truthy d)"
  shows "length (concat (map pairCards t)) = tableCount t"
  using assms by (induction t) (auto simp: pairCards_def split: option.splits)

text \<open>The end of a round by \<open>passTurn\<close>, for a session that satisfies the invariant.\<close>

lemma passTurn_summary:
  assumes f:
    "attacker s = Some x" "defender s = Some y" "x \<noteq> y" "truthy x" "truthy y"
    "players s = [x, y] \<or> players s = [y, x]" "dom (hands s) = {x, y}"
    "hands s x = Some hx" "hands s y = Some hy"
    "\<forall>c \<in> set hx. truthy c" "\<forall>c \<in> set hy. truthy c"
    "deck s \<noteq> [] \<longrightarrow>
       6 \<le> length hx + tableCount (table s) \<and> 6 \<le> length hy + tableCount (table s)"
    "phase s \<noteq> Waiting" "phase s = Playing \<longrightarrow> winner s = None"
    "canThrow s \<longrightarrow> allDefended (table s)"
    "\<forall>c \<in> set (deck s). truthy c" "\<forall>c. trumpCard s = Some c \<longrightarrow> truthy c"
    "\<forall>p \<in> set (table s). truthy (attackOf p) \<and> (\<forall>d. defenseOf p = Some d \<longrightarrow> truthy d)"
    "deck s = [] \<longrightarrow> trumpCard s = None"
    and a: "passTurn p s = Inr (True, s')"
  shows "\<exists>hx1 hy1. p = x \<and> phase s = Playing \<and> allDefended (table s)
      \<and> attacker s' = Some y \<and> defender s' = Some x
      \<and> length hx1 + length hy1 + length (deck s') = length hx + length hy + length (deck s)
      \<and> hands s' x = Some hx1 \<and> hands s' y = Some hy1 \<and> dom (hands s') = {x, y}
      \<and> players s' = players s \<and> table s' = [] \<and> \<not> canThrow s'
      \<and> trumpSuit s' = trumpSuit s \<and> roomId s' = roomId s
      \<and> (deck s' \<noteq> [] \<longrightarrow> 6 \<le> length hx1 \<and> 6 \<le> length hy1)
      \<and> (\<forall>c \<in> set hx1. truthy c) \<and> (\<forall>c \<in> set hy1. truthy c)
      \<and> (\<forall>c \<in> set (deck s'). truthy c)
      \<and> trumpCard s' = (if deck s' = [] then None else trumpCard s)
      \<and> (phase s' = Playing \<and> winner s' = None \<or> phase s' = Finished)
      \<and> (deck s' = [] \<longrightarrow>
            (hx1 = [] \<and> hy1 \<noteq> [] \<longrightarrow> winner s' = Some x \<and> phase s' = Finished)
          \<and> (hy1 = [] \<and> hx1 \<noteq> [] \<longrightarrow> winner s' = Some y \<and> phase s' = Finished)
          \<and> (hx1 = [] \<and> hy1 = [] \<longrightarrow> winner s' = None \<and> phase s' = Playing))
      \<and> (deck s' \<noteq> [] \<longrightarrow> phase s' = Playing)"
proof -
  define s0 where "s0 = s\<lparr>table := [], canThrow := False\<rparr>"
  from passTurn_True [OF a] obtain s1 where
    e: "phase s = Playing" "attacker s = Some p" "allDefended (table s)"
    and r: "refillHands s0 = Inr s1"
    and c: "checkWinner (s1\<lparr>attacker := defender s1, defender := attacker s1,
                               lastAction := RoundDone\<rparr>) = Inr s'"
    unfolding s0_def by blast
  have g: "attacker s0 = Some x" "defender s0 = Some y" "hands s0 x = Some hx"
    "hands s0 y = Some hy" "\<forall>c \<in> set (deck s0). truthy c"
    using f by (simp_all add: s0_def)
  from refillHands_two [OF g(1,2) f(4,5,3) g(3,4,5)] r obtain hx1 hy1 where q:
    "hands s1 x = Some hx1" "hands s1 y = Some hy1" "dom (hands s1) = dom (hands s0)"
    "deck s1 \<noteq> [] \<longrightarrow> 6 \<le> length hx1 \<and> 6 \<le> length hy1"
    "set hx1 \<subseteq> set hx \<union> set (deck s0)" "set hy1 \<subseteq> set hy \<union> set (deck s0)"
    "set (deck s1) \<subseteq> set (deck s0)"
    "trumpCard s1 = (if deck s1 = [] \<and> truthyOpt (trumpCard s0) then None else trumpCard s0)"
    "length hx1 + length hy1 + length (deck s1) = length hx + length hy + length (deck s0)"
    by auto
  from refillHands_fields [OF r] have k:
    "players s1 = players s" "table s1 = []" "attacker s1 = Some x" "defender s1 = Some y"
    "phase s1 = Playing" "winner s1 = None" "canThrow s1 = False"
    "trumpSuit s1 = trumpSuit s" "roomId s1 = roomId s"
    using f e by (simp_all add: s0_def)
  define s2 where "s2 = s1\<lparr>attacker := defender s1, defender := attacker s1,
                               lastAction := RoundDone\<rparr>"
  have m: "players s2 = [x, y] \<or> players s2 = [y, x]" "hands s2 x = Some hx1"
    "hands s2 y = Some hy1"
    using k f(6) q by (simp_all add: s2_def)
  have tc: "trumpCard s1 = (if deck s1 = [] then None else trumpCard s)"
    using q(8) f(17) by (cases "trumpCard s") (auto simp: s0_def truthyOpt_def)
  have tc2: "deck s2 = [] \<longrightarrow> \<not> truthyOpt (trumpCard s2)"
    using tc by (simp add: s2_def truthyOpt_def)
  from checkWinner_two_props [OF m(1) f(3,4,5) m(2,3)] c tc2 have w:
    "players s' = players s2" "hands s' = hands s2" "deck s' = deck s2"
    "trumpCard s' = trumpCard s2" "table s' = table s2" "trumpSuit s' = trumpSuit s2"
    "attacker s' = attacker s2" "defender s' = defender s2" "canThrow s' = canThrow s2"
    "roomId s' = roomId s2"
    "phase s' = phase s2 \<and> winner s' = winner s2 \<or> phase s' = Finished"
    "deck s2 = [] \<longrightarrow>
           (hx1 = [] \<and> hy1 \<noteq> [] \<longrightarrow> winner s' = Some x \<and> phase s' = Finished)
         \<and> (hy1 = [] \<and> hx1 \<noteq> [] \<longrightarrow> winner s' = Some y \<and> phase s' = Finished)
         \<and> (hx1 = [] \<and> hy1 = [] \<longrightarrow> winner s' = winner s2 \<and> phase s' = phase s2)"
    "deck s2 \<noteq> [] \<longrightarrow> phase s' = phase s2 \<and> winner s' = winner s2"
    unfolding s2_def by auto
  have tx: "\<forall>c \<in> set hx1. truthy c" using q(5) f(10,16) by (auto simp: s0_def)
  have ty: "\<forall>c \<in> set hy1. truthy c" using q(6) f(11,16) by (auto simp: s0_def)
  have td: "\<forall>c \<in> set (deck s1). truthy c" using q(7) f(16) by (auto simp: s0_def)
  have px: "p = x" using e(2) f(1) by simp
  have dm: "dom (hands s') = {x, y}" using w(2) q(3) f(7) by (simp add: s2_def s0_def)
  have cnt: "length hx1 + length hy1 + length (deck s') = length hx + length hy + length (deck s)"
    using q(9) w(3) by (simp add: s2_def s0_def)
  have ph: "phase s' = Playing \<and> winner s' = None \<or> phase s' = Finished"
    using w(11) k(5,6) by (simp add: s2_def)
  show ?thesis
    apply (rule exI [of _ hx1], rule exI [of _ hy1])
    using px e(1,3) dm cnt ph w k q(1,2,4) tx ty td tc
    by (simp add: s2_def)
qed

text \<open>The end of a round by \<open>takeCards\<close>, for a session that satisfies the invariant.\<close>

lemma takeCards_summary:
  assumes f:
    "attacker s = Some x" "defender s = Some y" "x \<noteq> y" "truthy x" "truthy y"
    "players s = [x, y] \<or> players s = [y, x]" "dom (hands s) = {x, y}"
    "hands s x = Some hx" "hands s y = Some hy"
    "\<forall>c \<in> set hx. truthy c" "\<forall>c \<in> set hy. truthy c"
    "deck s \<noteq> [] \<longrightarrow>
       6 \<le> length hx + tableCount (table s) \<and> 6 \<le> length hy + tableCount (table s)"
    "phase s \<noteq> Waiting" "phase s = Playing \<longrightarrow> winner s = None"
    "canThrow s \<longrightarrow> allDefended (table s)"
    "\<forall>c \<in> set (deck s). truthy c" "\<forall>c. trumpCard s = Some c \<longrightarrow> truthy c"
    "\<forall>p \<in> set (table s). truthy (attackOf p) \<and> (\<forall>d. defenseOf p = Some d \<longrightarrow> truthy d)"
    "deck s = [] \<longrightarrow> trumpCard s = None"
    and a: "takeCards p s = Inr (True, s')"
  shows "\<exists>hx1 hy1. p = y \<and> phase s = Playing \<and> table s \<noteq> []
      \<and> attacker s' = Some x \<and> defender s' = Some y
      \<and> length hy1 = length hy + tableCount (table s)
      \<and> length hx1 + length (deck s') = length hx + length (deck s)
      \<and> hands s' x = Some hx1 \<and> hands s' y = Some hy1 \<and> dom (hands s') = {x, y}
      \<and> players s' = players s \<and> table s' = [] \<and> \<not> canThrow s'
      \<and> trumpSuit s' = trumpSuit s \<and> roomId s' = roomId s
      \<and> (deck s' \<noteq> [] \<longrightarrow> 6 \<le> length hx1 \<and> 6 \<le> length hy1)
      \<and> (\<forall>c \<in> set hx1. truthy c) \<and> (\<forall>c \<in> set hy1. truthy c)
      \<and> (\<forall>c \<in> set (deck s'). truthy c)
      \<and> trumpCard s' = (if deck s' = [] then None else trumpCard s)
      \<and> (phase s' = Playing \<and> winner s' = None \<or> phase s' = Finished)
      \<and> (deck s' = [] \<longrightarrow>
            (hx1 = [] \<and> hy1 \<noteq> [] \<longrightarrow> winner s' = Some x \<and> phase s' = Finished)
          \<and> (hy1 = [] \<and> hx1 \<noteq> [] \<longrightarrow> winner s' = Some y \<and> phase s' = Finished)
          \<and> (hx1 = [] \<and> hy1 = [] \<longrightarrow> winner s' = None \<and> phase s' = Playing))
      \<and> (deck s' \<noteq> [] \<longrightarrow> phase s' = Playing)"
proof -
  from takeCards_True [OF a] obtain sa sb where
    e: "phase s = Playing" "defender s = Some p" "table s \<noteq> []"
    and t: "takeTable s = Inr sa"
    and r: "refillHands (sa\<lparr>table := [], canThrow := False\<rparr>) = Inr sb"
    and c: "checkWinner (sb\<lparr>lastAction := Took p\<rparr>) = Inr s'"
    by blast
  define hy0 where "hy0 = sortHand (hy @ tableCards s) (trumpSuit s)"
  have sa: "sa = s\<lparr>hands := (hands s)(y \<mapsto> hy0)\<rparr>"
    using t f(2,5,9) by (simp add: takeTable_def hy0_def)
  define s0 where "s0 = sa\<lparr>table := [], canThrow := False\<rparr>"
  have l0: "length hy0 = length hy + tableCount (table s)"
    using tableCards_length [OF f(18)] by (simp add: hy0_def tableCards_def)
  have t0: "\<forall>c \<in> set hy0. truthy c"
    using f(11) tableCards_truthy [of s] by (auto simp: hy0_def)
  have g: "attacker s0 = Some x" "defender s0 = Some y" "hands s0 x = Some hx"
    "hands s0 y = Some hy0" "\<forall>c \<in> set (deck s0). truthy c"
    using f by (simp_all add: s0_def sa)
  from refillHands_two [OF g(1,2) f(4,5,3) g(3,4,5)] r obtain hx1 hy1 where q:
    "hands sb x = Some hx1" "hands sb y = Some hy1" "dom (hands sb) = dom (hands s0)"
    "deck sb \<noteq> [] \<longrightarrow> 6 \<le> length hx1 \<and> 6 \<le> length hy1"
    "set hx1 \<subseteq> set hx \<union> set (deck s0)" "set hy1 \<subseteq> set hy0 \<union> set (deck s0)"
    "set (deck sb) \<subseteq> set (deck s0)"
    "trumpCard sb = (if deck sb = [] \<and> truthyOpt (trumpCard s0) then None else trumpCard s0)"
    "length hx1 + length hy1 + length (deck sb) = length hx + length hy0 + length (deck s0)"
    "6 \<le> length hy0 \<or> deck s0 = [] \<longrightarrow> length hy1 = length hy0"
    unfolding s0_def by auto
  from refillHands_fields [OF r] have k:
    "players sb = players s" "table sb = []" "attacker sb = Some x" "defender sb = Some y"
    "phase sb = Playing" "winner sb = None" "canThrow sb = False"
    "trumpSuit sb = trumpSuit s" "roomId sb = roomId s"
    using f e by (simp_all add: sa)
  define s2 where "s2 = sb\<lparr>lastAction := Took p\<rparr>"
  have m: "players s2 = [x, y] \<or> players s2 = [y, x]" "hands s2 x = Some hx1"
    "hands s2 y = Some hy1"
    using k f(6) q by (simp_all add: s2_def)
  have tc: "trumpCard sb = (if deck sb = [] then None else trumpCard s)"
    using q(8) f(17) by (cases "trumpCard s") (auto simp: s0_def sa truthyOpt_def)
  have tc2: "deck s2 = [] \<longrightarrow> \<not> truthyOpt (trumpCard s2)"
    using tc by (simp add: s2_def truthyOpt_def)
  from checkWinner_two_props [OF m(1) f(3,4,5) m(2,3)] c tc2 have w:
    "players s' = players s2" "hands s' = hands s2" "deck s' = deck s2"
    "trumpCard s' = trumpCard s2" "table s' = table s2" "trumpSuit s' = trumpSuit s2"
    "attacker s' = attacker s2" "defender s' = defender s2" "canThrow s' = canThrow s2"
    "roomId s' = roomId s2"
    "phase s' = phase s2 \<and> winner s' = winner s2 \<or> phase s' = Finished"
    "deck s2 = [] \<longrightarrow>
           (hx1 = [] \<and> hy1 \<noteq> [] \<longrightarrow> winner s' = Some x \<and> phase s' = Finished)
         \<and> (hy1 = [] \<and> hx1 \<noteq> [] \<longrightarrow> winner s' = Some y \<and> phase s' = Finished)
         \<and> (hx1 = [] \<and> hy1 = [] \<longrightarrow> winner s' = winner s2 \<and> phase s' = phase s2)"
    "deck s2 \<noteq> [] \<longrightarrow> phase s' = phase s2 \<and> winner s' = winner s2"
    unfolding s2_def by auto
  have tx: "\<forall>c \<in> set hx1. truthy c" using q(5) f(10,16) by (auto simp: s0_def sa)
  have ty: "\<forall>c \<in> set hy1. truthy c" using q(6) t0 f(16) by (auto simp: s0_def sa)
  have td: "\<forall>c \<in> set (deck sb). truthy c" using q(7) f(16) by (auto simp: s0_def sa)
  have py: "p = y" using e(2) f(2) by simp
  have dm: "dom (hands s') = {x, y}" using w(2) q(3) f(7) by (auto simp: s2_def s0_def sa)
  have "6 \<le> length hy0 \<or> deck s0 = []" using f(12) l0 by (auto simp: s0_def sa)
  then have ly: "length hy1 = length hy + tableCount (table s)" using q(10) l0 by simp
  have cnt: "length hx1 + length (deck s') = length hx + length (deck s)"
    using q(9) ly l0 w(3) by (simp add: s2_def s0_def sa)
  have ph: "phase s' = Playing \<and> winner s' = None \<or> phase s' = Finished"
    using w(11) k(5,6) by (simp add: s2_def)
  show ?thesis
    apply (rule exI [of _ hx1], rule exI [of _ hy1])
    using py e(1,3) dm cnt ly ph w k q(1,2,4) tx ty td tc
    by (simp add: s2_def)
qed


lemma shuffleLoop_mset: "i < length xs \<Longrightarrow> mset (shuffleLoop rnd i xs) = mset xs"
proof (induction i arbitrary: xs)
  case 0
  then show ?case by simp
next
  case (Suc i)
  define j where "j = rnd (Suc i) mod (Suc i + 1)"
  have "j < Suc i + 1" unfolding j_def by simp
  then have j: "j < length xs" using Suc.prems by linarith
  define ys where "ys = xs[Suc i := xs ! j, j := xs ! Suc i]"
  have m: "mset ys = mset xs" unfolding ys_def using j Suc.prems by (simp add: mset_swap)
  have l: "i < length ys" using Suc.prems by (simp add: ys_def)
  have "shuffleLoop rnd (Suc i) xs = shuffleLoop rnd i ys"
    by (simp add: Let_def j_def ys_def)
  with Suc.IH [OF l] m show ?case by simp
qed

lemma shuffleDeck_mset: "mset (shuffleDeck rnd d) = mset d"
  by (cases "d = []") (simp_all add: shuffleDeck_def shuffleLoop_mset)

lemma shuffleDeck_generateDeck:
  "length (shuffleDeck rnd generateDeck) = 36"
  "set (shuffleDeck rnd generateDeck) = set generateDeck"
  "distinct (shuffleDeck rnd generateDeck)"
proof -
  have m: "mset (shuffleDeck rnd generateDeck) = mset generateDeck" by (rule shuffleDeck_mset)
  show "length (shuffleDeck rnd generateDeck) = 36"
    using mset_eq_length [OF m] generateDeck_length by simp
  show "set (shuffleDeck rnd generateDeck) = set generateDeck"
    using mset_eq_setD [OF m] .
  show "distinct (shuffleDeck rnd generateDeck)"
    using mset_eq_imp_distinct_iff [OF m] generateDeck_distinct by simp
qed

lemma generateDeck_truthy: "\<forall>c \<in> set generateDeck. truthy c"
  by (simp add: generateDeck_unfold truthy_def)

lemma dealCard_two:
  assumes "hands s p = Some hp" "deck s \<noteq> []" "truthy (last (deck s))"
  shows "dealCard p s =
     Inr (s\<lparr>deck := butlast (deck s), hands := (hands s)(p \<mapsto> hp @ [last (deck s)])\<rparr>)"
  using assms by (simp add: dealCard_def Let_def)

lemma dealRound_two:
  assumes "players s = [a, b]" "a \<noteq> b" "hands s a = Some ha" "hands s b = Some hb"
    "\<forall>c \<in> set (deck s). truthy c" "2 \<le> length (deck s)"
  shows "forEach dealCard (players s) s =
     Inr (s\<lparr>deck := butlast (butlast (deck s)),
            hands := (hands s)(a \<mapsto> ha @ [last (deck s)],
                               b \<mapsto> hb @ [last (butlast (deck s))])\<rparr>)"
proof -
  have n1: "deck s \<noteq> []" using assms(6) by auto
  have "length (butlast (deck s)) \<noteq> 0" using assms(6) by simp
  then have n2: "butlast (deck s) \<noteq> []" by (simp only: length_0_conv not_False_eq_True)
  have t1: "truthy (last (deck s))" using assms(5) n1 by simp
  have t2: "truthy (last (butlast (deck s)))"
    using assms(5) n2 by (meson in_set_butlastD last_in_set)
  show ?thesis
    using assms(1-4) n1 n2 t1 t2 by (simp add: dealCard_def Let_def)
qed


lemma passTurn_inv:
  assumes inv: "sessionInv s" and a: "passTurn p s = Inr (True, s')"
  shows "sessionInv s'"
proof -
  from inv obtain x y hx hy where f:
    "attacker s = Some x" "defender s = Some y" "x \<noteq> y" "truthy x" "truthy y"
    "players s = [x, y] \<or> players s = [y, x]" "dom (hands s) = {x, y}"
    "hands s x = Some hx" "hands s y = Some hy"
    "\<forall>c \<in> set hx. truthy c" "\<forall>c \<in> set hy. truthy c"
    "deck s \<noteq> [] \<longrightarrow>
       6 \<le> length hx + tableCount (table s) \<and> 6 \<le> length hy + tableCount (table s)"
    "phase s \<noteq> Waiting" "phase s = Playing \<longrightarrow> winner s = None"
    "canThrow s \<longrightarrow> allDefended (table s)"
    "\<forall>c \<in> set (deck s). truthy c" "\<forall>c. trumpCard s = Some c \<longrightarrow> truthy c"
    "\<forall>p \<in> set (table s). truthy (attackOf p) \<and> (\<forall>d. defenseOf p = Some d \<longrightarrow> truthy d)"
    "deck s = [] \<longrightarrow> trumpCard s = None"
    by (rule sessionInvE)
  from passTurn_summary [OF f a] obtain hx1 hy1 where q:
    "attacker s' = Some y" "defender s' = Some x"
    "hands s' x = Some hx1" "hands s' y = Some hy1" "dom (hands s') = {x, y}"
    "players s' = players s" "table s' = []" "\<not> canThrow s'"
    "deck s' \<noteq> [] \<longrightarrow> 6 \<le> length hx1 \<and> 6 \<le> length hy1"
    "\<forall>c \<in> set hx1. truthy c" "\<forall>c \<in> set hy1. truthy c"
    "\<forall>c \<in> set (deck s'). truthy c"
    "trumpCard s' = (if deck s' = [] then None else trumpCard s)"
    "phase s' = Playing \<and> winner s' = None \<or> phase s' = Finished"
    by (elim exE conjE) (rule that; assumption)
  show ?thesis
  proof (rule sessionInvI [where x = y and y = x and hx = hy1 and hy = hx1])
    show "players s' = [y, x] \<or> players s' = [x, y]" using q(6) f(6) by auto
    show "dom (hands s') = {y, x}" using q(5) by auto
    show "phase s' \<noteq> Waiting" using q(14) by auto
    show "phase s' = Playing \<longrightarrow> winner s' = None" using q(14) by auto
    show "\<forall>c. trumpCard s' = Some c \<longrightarrow> truthy c" using q(13) f(17) by auto
  qed (use f q in \<open>simp_all\<close>)
qed

lemma takeCards_inv:
  assumes inv: "sessionInv s" and a: "takeCards p s = Inr (True, s')"
  shows "sessionInv s'"
proof -
  from inv obtain x y hx hy where f:
    "attacker s = Some x" "defender s = Some y" "x \<noteq> y" "truthy x" "truthy y"
    "players s = [x, y] \<or> players s = [y, x]" "dom (hands s) = {x, y}"
    "hands s x = Some hx" "hands s y = Some hy"
    "\<forall>c \<in> set hx. truthy c" "\<forall>c \<in> set hy. truthy c"
    "deck s \<noteq> [] \<longrightarrow>
       6 \<le> length hx + tableCount (table s) \<and> 6 \<le> length hy + tableCount (table s)"
    "phase s \<noteq> Waiting" "phase s = Playing \<longrightarrow> winner s = None"
    "canThrow s \<longrightarrow> allDefended (table s)"
    "\<forall>c \<in> set (deck s). truthy c" "\<forall>c. trumpCard s = Some c \<longrightarrow> truthy c"
    "\<forall>p \<in> set (table s). truthy (attackOf p) \<and> (\<forall>d. defenseOf p = Some d \<longrightarrow> truthy d)"
    "deck s = [] \<longrightarrow> trumpCard s = None"
    by (rule sessionInvE)
  from takeCards_summary [OF f a] obtain hx1 hy1 where q:
    "attacker s' = Some x" "defender s' = Some y"
    "hands s' x = Some hx1" "hands s' y = Some hy1" "dom (hands s') = {x, y}"
    "players s' = players s" "table s' = []" "\<not> canThrow s'"
    "deck s' \<noteq> [] \<longrightarrow> 6 \<le> length hx1 \<and> 6 \<le> length hy1"
    "\<forall>c \<in> set hx1. truthy c" "\<forall>c \<in> set hy1. truthy c"
    "\<forall>c \<in> set (deck s'). truthy c"
    "trumpCard s' = (if deck s' = [] then None else trumpCard s)"
    "phase s' = Playing \<and> winner s' = None \<or> phase s' = Finished"
    by (elim exE conjE) (rule that; assumption)
  show ?thesis
  proof (rule sessionInvI [where x = x and y = y and hx = hx1 and hy = hy1])
    show "phase s' \<noteq> Waiting" using q(14) by auto
    show "phase s' = Playing \<longrightarrow> winner s' = None" using q(14) by auto
    show "\<forall>c. trumpCard s' = Some c \<longrightarrow> truthy c" using q(13) f(17) by auto
  qed (use f q in \<open>simp_all\<close>)
qed

lemma applyMove_inv:
  assumes "sessionInv s" and "applyMove m s = Inr (ok, s')"
  shows "sessionInv s'"
proof (cases ok)
  case False
  with assms(2) have "s' = s" by (simp add: applyMove_False)
  with assms(1) show ?thesis by simp
next
  case True
  with assms show ?thesis
    by (cases m) (auto intro: attack_inv defend_inv throwIn_inv passTurn_inv takeCards_inv)
qed


lemma dealRounds_two:
  assumes "players s = [a, b]" "a \<noteq> b" "hands s a = Some ha" "hands s b = Some hb"
    "\<forall>c \<in> set (deck s). truthy c" "2 * n \<le> length (deck s)"
  shows "\<exists>s' ha' hb'. dealRounds n s = Inr s'
     \<and> hands s' a = Some ha' \<and> hands s' b = Some hb'
     \<and> length ha' = length ha + n \<and> length hb' = length hb + n
     \<and> length (deck s') + 2 * n = length (deck s)
     \<and> set (deck s') \<subseteq> set (deck s)
     \<and> set ha' \<subseteq> set ha \<union> set (deck s) \<and> set hb' \<subseteq> set hb \<union> set (deck s)
     \<and> dom (hands s') = dom (hands s)
     \<and> roomId s' = roomId s \<and> players s' = players s \<and> trumpCard s' = trumpCard s
     \<and> trumpSuit s' = trumpSuit s \<and> table s' = table s \<and> attacker s' = attacker s
     \<and> defender s' = defender s \<and> phase s' = phase s \<and> winner s' = winner s
     \<and> canThrow s' = canThrow s \<and> lastAction s' = lastAction s"
  using assms
proof (induction n arbitrary: s ha hb)
  case 0
  then show ?case by simp
next
  case (Suc n)
  define d1 where "d1 = butlast (butlast (deck s))"
  define ha1 where "ha1 = ha @ [last (deck s)]"
  define hb1 where "hb1 = hb @ [last (butlast (deck s))]"
  define s1 where "s1 = s\<lparr>deck := d1, hands := (hands s)(a \<mapsto> ha1, b \<mapsto> hb1)\<rparr>"
  have l2: "2 \<le> length (deck s)" using Suc.prems(6) by simp
  have r: "forEach dealCard (players s) s = Inr s1"
    using dealRound_two [OF Suc.prems(1-5) l2] by (simp add: s1_def d1_def ha1_def hb1_def)
  have sub1: "set (butlast (deck s)) \<subseteq> set (deck s)" by (meson in_set_butlastD subsetI)
  have sub2: "set d1 \<subseteq> set (butlast (deck s))" unfolding d1_def by (meson in_set_butlastD subsetI)
  have sub: "set d1 \<subseteq> set (deck s)" using sub1 sub2 by blast
  have n1: "deck s \<noteq> []" using l2 by auto
  have "length (butlast (deck s)) \<noteq> 0" using l2 by simp
  then have n2: "butlast (deck s) \<noteq> []" by (simp only: length_0_conv not_False_eq_True)
  have m1: "last (deck s) \<in> set (deck s)" using n1 by simp
  have m2: "last (butlast (deck s)) \<in> set (deck s)" using n2 sub1 last_in_set by blast
  have p: "players s1 = [a, b]" "hands s1 a = Some ha1" "hands s1 b = Some hb1"
    "\<forall>c \<in> set (deck s1). truthy c" "2 * n \<le> length (deck s1)"
    using Suc.prems sub by (auto simp: s1_def d1_def)
  from Suc.IH [OF p(1) Suc.prems(2) p(2,3,4,5)] obtain s' ha' hb' where q:
    "dealRounds n s1 = Inr s'" "hands s' a = Some ha'" "hands s' b = Some hb'"
    "length ha' = length ha1 + n" "length hb' = length hb1 + n"
    "length (deck s') + 2 * n = length (deck s1)"
    "set (deck s') \<subseteq> set (deck s1)"
    "set ha' \<subseteq> set ha1 \<union> set (deck s1)" "set hb' \<subseteq> set hb1 \<union> set (deck s1)"
    "dom (hands s') = dom (hands s1)"
    "roomId s' = roomId s1" "players s' = players s1" "trumpCard s' = trumpCard s1"
    "trumpSuit s' = trumpSuit s1" "table s' = table s1" "attacker s' = attacker s1"
    "defender s' = defender s1" "phase s' = phase s1" "winner s' = winner s1"
    "canThrow s' = canThrow s1" "lastAction s' = lastAction s1"
    by (elim exE conjE) (rule that; assumption)
  have e: "dealRounds (Suc n) s = Inr s'" using r q(1) by simp
  have ld: "length (deck s1) + 2 = length (deck s)" using l2 by (simp add: s1_def d1_def)
  have c1: "length ha' = length ha + Suc n" using q(4) by (simp add: ha1_def)
  have c2: "length hb' = length hb + Suc n" using q(5) by (simp add: hb1_def)
  have c3: "length (deck s') + 2 * Suc n = length (deck s)" using q(6) ld by simp
  have c4: "set (deck s') \<subseteq> set (deck s)" using q(7) sub by (auto simp: s1_def)
  have c5: "set ha' \<subseteq> set ha \<union> set (deck s)"
    using q(8) sub m1 by (auto simp: s1_def ha1_def)
  have c6: "set hb' \<subseteq> set hb \<union> set (deck s)"
    using q(9) sub m2 by (auto simp: s1_def hb1_def)
  have c7: "dom (hands s') = dom (hands s)"
    using q(10) Suc.prems(3,4) by (auto simp: s1_def)
  show ?case
    apply (rule exI [of _ s'], rule exI [of _ ha'], rule exI [of _ hb'])
    using e q(2,3) c1 c2 c3 c4 c5 c6 c7 q(11-21) by (simp add: s1_def)
qed

lemma scanHand_snd:
  "snd (scanHand t p cs acc) = snd acc \<or> snd (scanHand t p cs acc) = Some p"
proof (induction cs arbitrary: acc)
  case Nil
  then show ?case by simp
next
  case (Cons c cs)
  define acc' where "acc' =
       (if Some (snd (parseCard c)) = t
           \<and> (\<not> truthyOpt (fst acc)
               \<or> (case fst acc of
                     None \<Rightarrow> False
                   | Some l \<Rightarrow> (case compareCards c l of None \<Rightarrow> False | Some d \<Rightarrow> d < 0)))
        then (Some c, Some p) else acc)"
  have a: "scanHand t p (c # cs) acc = scanHand t p cs acc'" by (simp add: acc'_def)
  have b: "acc' = acc \<or> snd acc' = Some p" by (simp add: acc'_def)
  from Cons.IH [of acc'] a b show ?case by auto
qed


lemma startGame_two:
  assumes "players s = [a, b]" "a \<noteq> b" "truthy a" "truthy b"
    "hands s a = Some []" "hands s b = Some []" "dom (hands s) = {a, b}"
    "table s = []" "winner s = None" "\<not> canThrow s"
  shows "\<exists>s'. startGame rnd coin s = Inr s' \<and> sessionInv s' \<and> phase s' = Playing
     \<and> cardCount s' = 36 \<and> players s' = [a, b] \<and> roomId s' = roomId s
     \<and> table s' = [] \<and> length (deck s') = 23 \<and> trumpCard s' \<noteq> None"
proof -
  define s0 where "s0 = s\<lparr>deck := shuffleDeck rnd generateDeck\<rparr>"
  have t0: "\<forall>c \<in> set (deck s0). truthy c"
    using generateDeck_truthy by (simp add: s0_def shuffleDeck_generateDeck(2))
  have p0: "players s0 = [a, b]" "hands s0 a = Some []" "hands s0 b = Some []"
    "2 * 6 \<le> length (deck s0)"
    using assms by (simp_all add: s0_def shuffleDeck_generateDeck(1))
  from dealRounds_two [OF p0(1) assms(2) p0(2,3) t0 p0(4)] obtain s1 ha hb where q:
    "dealRounds 6 s0 = Inr s1" "hands s1 a = Some ha" "hands s1 b = Some hb"
    "length ha = length ([]::card list) + 6" "length hb = length ([]::card list) + 6"
    "length (deck s1) + 2 * 6 = length (deck s0)"
    "set (deck s1) \<subseteq> set (deck s0)"
    "set ha \<subseteq> set [] \<union> set (deck s0)" "set hb \<subseteq> set [] \<union> set (deck s0)"
    "dom (hands s1) = dom (hands s0)"
    "roomId s1 = roomId s0" "players s1 = players s0" "trumpCard s1 = trumpCard s0"
    "trumpSuit s1 = trumpSuit s0" "table s1 = table s0" "attacker s1 = attacker s0"
    "defender s1 = defender s0" "phase s1 = phase s0" "winner s1 = winner s0"
    "canThrow s1 = canThrow s0" "lastAction s1 = lastAction s0"
    by (elim exE conjE) (rule that; assumption)
  have l1: "length (deck s1) = 24" using q(6) by (simp add: s0_def shuffleDeck_generateDeck(1))
  then obtain c rest where d1: "deck s1 = c # rest" by (cases "deck s1") auto
  have lr: "length rest = 23" using l1 d1 by simp
  then have rn: "rest \<noteq> []" by auto
  have tc: "truthy c" using d1 q(7) t0 by auto
  have tr: "\<forall>e \<in> set rest. truthy e" using d1 q(7) t0 by auto
  have tha: "\<forall>e \<in> set ha. truthy e" using q(8) t0 by auto
  have thb: "\<forall>e \<in> set hb. truthy e" using q(9) t0 by auto
  define t where "t = Some (snd (parseCard c))"
  define s3 where "s3 = s1\<lparr>deck := rest, trumpCard := Some c, trumpSuit := t\<rparr>"
  define acc where "acc = scanHand t b hb (scanHand t a ha (None, None))"
  have sc: "scanPlayers s3 (players s3) (None, None) = Inr acc"
    using q(2,3,12) p0(1) by (simp add: s3_def acc_def)
  have "snd (scanHand t a ha (None, None)) = None \<or> snd (scanHand t a ha (None, None)) = Some a"
    using scanHand_snd [of t a ha "(None, None)"] by simp
  then have sn: "snd acc = None \<or> snd acc = Some a \<or> snd acc = Some b"
    using scanHand_snd [of t b hb "scanHand t a ha (None, None)"] by (auto simp: acc_def)
  define x where "x = (if snd acc = Some a then a else if snd acc = Some b then b
                        else [a, b] ! (coin mod 2))"
  have "coin mod 2 = 0 \<or> coin mod 2 = 1" by auto
  then have xab: "x = a \<or> x = b" by (auto simp: x_def)
  have "(if truthyOpt (snd acc) then snd acc
         else if coin mod 2 < length (players s3) then Some (players s3 ! (coin mod 2)) else None)
        = Some x"
    using sn assms(3,4) q(12) p0(1) by (auto simp: x_def truthyOpt_def s3_def)
  then have dfa: "determineFirstAttacker coin s3 = Inr (s3\<lparr>attacker := Some x\<rparr>)"
    using sc by (simp add: determineFirstAttacker_def)
  define y where "y = (if x = a then b else a)"
  have xy: "x \<noteq> y" "truthy x" "truthy y" "{x, y} = {a, b}"
    "players s = [x, y] \<or> players s = [y, x]"
    using xab assms(1-4) by (auto simp: y_def)
  define s5 where "s5 = s3\<lparr>attacker := Some x, defender := Some y\<rparr>"
  have fd: "(case find (\<lambda>p. Some p \<noteq> attacker (s3\<lparr>attacker := Some x\<rparr>))
                   (players (s3\<lparr>attacker := Some x\<rparr>)) of
               None \<Rightarrow> None | Some q \<Rightarrow> if truthy q then Some q else None) = Some y"
    using xab assms(2,3,4) q(12) p0(1) by (auto simp: y_def s3_def)
  define s6 where "s6 = s5\<lparr>hands := (hands s5)(a \<mapsto> sortHand ha t, b \<mapsto> sortHand hb t)\<rparr>"
  have so: "forEach sortPlayerHand (players s5) s5 = Inr s6"
    using q(2,3,12) p0(1) assms(2)
    by (simp add: s5_def s3_def s6_def sortPlayerHand_def)
  define s' where "s' = s6\<lparr>phase := Playing, lastAction := GameStarted\<rparr>"
  have e: "startGame rnd coin s = Inr s'"
    using q(1) d1 tc dfa fd so
    by (simp add: startGame_def s0_def [symmetric] Let_def s3_def [symmetric] t_def [symmetric]
        s5_def [symmetric] s'_def)
  have ha': "hands s' a = Some (sortHand ha t)" "hands s' b = Some (sortHand hb t)"
    using assms(2) by (simp_all add: s'_def s6_def)
  have dm: "dom (hands s') = {a, b}"
    using q(10) assms(7) by (auto simp: s'_def s6_def s5_def s3_def s0_def)
  have fl: "players s' = [a, b]" "table s' = []" "deck s' = rest" "trumpCard s' = Some c"
    "attacker s' = Some x" "defender s' = Some y" "phase s' = Playing" "winner s' = None"
    "\<not> canThrow s'" "roomId s' = roomId s"
    using q(11-21) assms p0(1)
    by (simp_all add: s'_def s6_def s5_def s3_def s0_def)
  have cnt: "cardCount s' = 36"
    using fl ha' q(4,5) lr assms(2) by (simp add: cardCount_def handSize_def)
  have inv: "sessionInv s'"
  proof (cases "x = a")
    case True
    then have y: "y = b" by (simp add: y_def)
    show ?thesis
    proof (rule sessionInvI [where x = x and y = y and hx = "sortHand ha t"
          and hy = "sortHand hb t"])
      show "dom (hands s') = {x, y}" using dm True y by simp
    qed (use fl ha' True y xy tha thb tr tc q(4,5) lr rn in \<open>simp_all add: allDefended_def\<close>)
  next
    case False
    then have x: "x = b" and y: "y = a" using xab by (simp_all add: y_def)
    show ?thesis
    proof (rule sessionInvI [where x = x and y = y and hx = "sortHand hb t"
          and hy = "sortHand ha t"])
      show "dom (hands s') = {x, y}" using dm x y by auto
    qed (use fl ha' x y xy tha thb tr tc q(4,5) lr rn in \<open>simp_all add: allDefended_def\<close>)
  qed
  show ?thesis
    apply (rule exI [of _ s'])
    using e inv cnt fl lr by simp
qed

lemma dealt_sessionInv:
  assumes "truthy a" "truthy b" "a \<noteq> b"
    "addPlayer a rnd0 coin0 (newSession rid) = Inr (True, s0)"
    "addPlayer b rnd coin s0 = Inr (True, s)"
  shows "sessionInv s \<and> phase s = Playing \<and> cardCount s = 36 \<and> players s = [a, b]
     \<and> roomId s = rid \<and> table s = [] \<and> length (deck s) = 23 \<and> trumpCard s \<noteq> None"
proof -
  have s0: "s0 = (newSession rid)\<lparr>players := [a], hands := [a \<mapsto> []]\<rparr>"
    using assms(4) by (simp add: addPlayer_def newSession_def)
  define s1 where "s1 = s0\<lparr>players := players s0 @ [b], hands := (hands s0)(b \<mapsto> [])\<rparr>"
  have g: "players s1 = [a, b]" "hands s1 a = Some []" "hands s1 b = Some []"
    "dom (hands s1) = {a, b}" "table s1 = []" "winner s1 = None" "\<not> canThrow s1"
    "roomId s1 = rid"
    using assms(3) by (auto simp: s1_def s0 newSession_def)
  from startGame_two [OF g(1) assms(3,1,2) g(2-7), of rnd coin] obtain s' where
    e: "startGame rnd coin s1 = Inr s'" and
    r: "sessionInv s'" "phase s' = Playing" "cardCount s' = 36" "players s' = [a, b]"
       "roomId s' = roomId s1" "table s' = []" "length (deck s') = 23" "trumpCard s' \<noteq> None"
    by (elim exE conjE) (rule that; assumption)
  have "addPlayer b rnd coin s0 = Inr (True, s')"
    using e assms(3) by (simp add: addPlayer_def s1_def Let_def s0)
  then have "s = s'" using assms(5) by simp
  with r g(8) show ?thesis by simp
qed

lemma reachable_sessionInv: "reachable s \<Longrightarrow> sessionInv s"
proof (induction rule: reachable.induct)
  case (dealt a b rnd0 coin0 rid s0 rnd coin s)
  then show ?case using dealt_sessionInv by blast
next
  case (moved s m ok s')
  then show ?case using applyMove_inv by blast
qed


subsection \<open>The example match, move by move\<close>

lemma stackedDeck_shuffle: "shuffleDeck stackedRnd generateDeck = stackedDeck"
  by code_simp

lemma hands_twist: "(m(''B'' := v))(''A'' := w) = (m(''A'' := w))(''B'' := v)"
  by (rule fun_upd_twist) simp

lemma dealRounds_numeral:
  "dealRounds (numeral k) s =
     (case forEach dealCard (players s) s of
        Inl e \<Rightarrow> Inl e
      | Inr s1 \<Rightarrow> dealRounds (pred_numeral k) s1)"
  by (simp add: numeral_eq_Suc)

lemmas card_eval = parseCard_def RANK_VALUES_def truthy_def truthyOpt_def sortHand_def
  compareInHand_def localeCompare_def compareCards_def canBeat_def canThrowIn_def Let_def

lemmas move_eval = attack_def defend_def throwIn_def passTurn_def takeCards_def
  removeCardFromHand_def defenderHandSize_def takeTable_def tableCards_def pairCards_def
  allDefended_def refillHands_def refillOrder_def refillPlayer_def checkWinner_def
  checkPlayer_def drawUpTo.simps hands_twist

lemma exDealt_join:
  "addPlayer ''A'' stackedRnd 0 (newSession ''R'')
     = Inr (True, (newSession ''R'')\<lparr>players := [''A''], hands := [''A'' \<mapsto> []]\<rparr>)"
  by (simp add: addPlayer_def newSession_def)

lemma exDealt_deal:
  "addPlayer ''B'' stackedRnd 0
     ((newSession ''R'')\<lparr>players := [''A''], hands := [''A'' \<mapsto> []]\<rparr>)
     = Inr (True, exDealt)"
  by (simp add: addPlayer_def newSession_def startGame_def stackedDeck_shuffle stackedDeck_def
      dealRounds_numeral dealCard_def determineFirstAttacker_def sortPlayerHand_def
      card_eval hands_twist exDealt_def)

lemma ex_attack: "attack ''A'' ''6h'' exDealt = Inr (True, exAttacked)"
  by (simp add: exDealt_def exAttacked_def move_eval card_eval)

lemma ex_defend: "defend ''B'' ''6h'' ''7h'' exAttacked = Inr (True, exDefended)"
  by (simp add: exAttacked_def exDefended_def move_eval card_eval)

lemma ex_earlyPass: "passTurn ''A'' exDefended = Inr (True, exEarlyPass)"
  by (simp add: exDefended_def exEarlyPass_def move_eval card_eval)

lemma ex_take: "takeCards ''B'' exAttacked = Inr (True, exTaken)"
  by (simp add: exAttacked_def exTaken_def move_eval card_eval)

lemma ex_round1:
  "runMoves
     [ThrowIn ''A'' ''7d'',
      Defend ''B'' ''7d'' ''8d'',
      ThrowIn ''A'' ''8c'',
      Defend ''B'' ''8c'' ''9c'',
      ThrowIn ''A'' ''9h'',
      Defend ''B'' ''9h'' ''10h'',
      ThrowIn ''A'' ''10d'',
      Defend ''B'' ''10d'' ''Jd'',
      ThrowIn ''A'' ''Jc'',
      Defend ''B'' ''Jc'' ''Qc'']
     exDefended = Inr exRound1"
  by (simp add: exDefended_def exRound1_def move_eval card_eval)

lemma ex_pass1: "passTurn ''A'' exRound1 = Inr (True, exPassed1)"
  by (simp add: exRound1_def exPassed1_def move_eval card_eval)

lemma ex_round2:
  "runMoves
     [Attack ''B'' ''6d'',
      Defend ''A'' ''6d'' ''9d'',
      ThrowIn ''B'' ''6c'',
      Defend ''A'' ''6c'' ''7c'',
      ThrowIn ''B'' ''6s'',
      Defend ''A'' ''6s'' ''7s'',
      ThrowIn ''B'' ''9s'',
      Defend ''A'' ''9s'' ''10s'',
      ThrowIn ''B'' ''10c'',
      Defend ''A'' ''10c'' ''Kc'',
      ThrowIn ''B'' ''Kd'',
      Defend ''A'' ''Kd'' ''Ad'']
     exPassed1 = Inr exRound2"
  by (simp add: exPassed1_def exRound2_def move_eval card_eval)

lemma ex_pass2: "passTurn ''B'' exRound2 = Inr (True, exPassed2)"
  by (simp add: exRound2_def exPassed2_def move_eval card_eval)

lemma ex_round3:
  "runMoves
     [Attack ''A'' ''8h'',
      Defend ''B'' ''8h'' ''Js'',
      ThrowIn ''A'' ''Jh'',
      Defend ''B'' ''Jh'' ''Qs'',
      ThrowIn ''A'' ''Qd'',
      Defend ''B'' ''Qd'' ''Ks'',
      ThrowIn ''A'' ''Qh'',
      Defend ''B'' ''Qh'' ''Ah'',
      ThrowIn ''A'' ''Kh'',
      Defend ''B'' ''Kh'' ''8s'']
     exPassed2 = Inr exRound3"
  by (simp add: exPassed2_def exRound3_def move_eval card_eval)

lemma ex_pass3: "passTurn ''A'' exRound3 = Inr (True, exWon)"
  by (simp add: exRound3_def exWon_def move_eval card_eval)

lemma reachable_runMoves:
  "reachable s \<Longrightarrow> runMoves ms s = Inr s' \<Longrightarrow> reachable s'"
proof (induction ms arbitrary: s)
  case Nil
  then show ?case by simp
next
  case (Cons m ms)
  from Cons.prems(2) obtain r where a: "applyMove m s = Inr r" and b: "runMoves ms (snd r) = Inr s'"
    by (auto split: sum.splits)
  from a have "applyMove m s = Inr (fst r, snd r)" by simp
  from reachable.moved [OF Cons.prems(1) this] have "reachable (snd r)" .
  from Cons.IH [OF this b] show ?case .
qed

lemma reachable_exDealt: "reachable exDealt"
  by (rule reachable.dealt [OF _ _ _ exDealt_join exDealt_deal]) (simp_all add: truthy_def)

lemma reachable_exAttacked: "reachable exAttacked"
  using reachable.moved [OF reachable_exDealt, of "Attack ''A'' ''6h''"] ex_attack by simp

lemma reachable_exDefended: "reachable exDefended"
  using reachable.moved [OF reachable_exAttacked, of "Defend ''B'' ''6h'' ''7h''"] ex_defend
  by simp

lemma reachable_exRound1: "reachable exRound1"
  by (rule reachable_runMoves [OF reachable_exDefended ex_round1])

lemma reachable_exPassed1: "reachable exPassed1"
  using reachable.moved [OF reachable_exRound1, of "PassTurn ''A''"] ex_pass1 by simp

lemma reachable_exRound2: "reachable exRound2"
  by (rule reachable_runMoves [OF reachable_exPassed1 ex_round2])

lemma reachable_exPassed2: "reachable exPassed2"
  using reachable.moved [OF reachable_exRound2, of "PassTurn ''B''"] ex_pass2 by simp

lemma reachable_exRound3: "reachable exRound3"
  by (rule reachable_runMoves [OF reachable_exPassed2 ex_round3])

lemma ex_tookTwice:
  "runMoves
     [Attack ''A'' ''10d'',
      TakeCards ''B'',
      Attack ''A'' ''7d'',
      Defend ''B'' ''7d'' ''8d'',
      ThrowIn ''A'' ''8c'',
      Defend ''B'' ''8c'' ''9c'',
      TakeCards ''B'']
     exDealt = Inr exTookTwice"
  by (simp add: exDealt_def exTookTwice_def move_eval card_eval)

lemma ex_turned:
  "runMoves
     [Attack ''A'' ''6h'',
      Defend ''B'' ''6h'' ''10h'',
      PassTurn ''A'']
     exTookTwice = Inr exTurned"
  by (simp add: exTookTwice_def exTurned_def move_eval card_eval)

lemma ex_thrown:
  "runMoves
     [Attack ''B'' ''8c'',
      Defend ''A'' ''8c'' ''Jc'',
      ThrowIn ''B'' ''8d'',
      Defend ''A'' ''8d'' ''Ad'',
      ThrowIn ''B'' ''Jd'',
      Defend ''A'' ''Jd'' ''7s'',
      ThrowIn ''B'' ''7d'',
      Defend ''A'' ''7d'' ''10s'',
      ThrowIn ''B'' ''7h'',
      Defend ''A'' ''7h'' ''9h'',
      ThrowIn ''B'' ''9c'']
     exTurned = Inr exThrown"
  by (simp add: exTurned_def exThrown_def move_eval card_eval)

lemma ex_spent: "defend ''A'' ''9c'' ''Kc'' exThrown = Inr (True, exSpent)"
  by (simp add: exThrown_def exSpent_def move_eval card_eval)

lemma reachable_exThrown: "reachable exThrown"
  by (rule reachable_runMoves [OF reachable_runMoves [OF reachable_runMoves
        [OF reachable_exDealt ex_tookTwice] ex_turned] ex_thrown])

lemma reachable_exSpent: "reachable exSpent"
  using reachable.moved [OF reachable_exThrown, of "Defend ''A'' ''9c'' ''Kc''"] ex_spent
  by simp

lemma ex_cornered:
  "runMoves
     [Attack ''A'' ''8h'',
      Defend ''B'' ''8h'' ''Js'',
      ThrowIn ''A'' ''Jh'',
      Defend ''B'' ''Jh'' ''Qs'',
      ThrowIn ''A'' ''Qd'',
      Defend ''B'' ''Qd'' ''Ks'',
      ThrowIn ''A'' ''Qh'',
      Defend ''B'' ''Qh'' ''Ah'',
      ThrowIn ''A'' ''Kh'']
     exPassed2 = Inr exCornered"
  by (simp add: exPassed2_def exCornered_def move_eval card_eval)

lemma ex_gaveUp: "takeCards ''B'' exCornered = Inr (True, exGaveUp)"
  by (simp add: exCornered_def exGaveUp_def move_eval card_eval)

lemma reachable_exCornered: "reachable exCornered"
  by (rule reachable_runMoves [OF reachable_exPassed2 ex_cornered])

lemma ex_nobodyWon: "passTurn ''A'' exBothOut = Inr (True, exNobodyWon)"
  by (simp add: exBothOut_def exNobodyWon_def move_eval card_eval)

lemma runMoves_append:
  "runMoves xs s = Inr s1 \<Longrightarrow> runMoves ys s1 = Inr s2 \<Longrightarrow> runMoves (xs @ ys) s = Inr s2"
  by (induction xs arbitrary: s) (auto split: sum.splits)


subsection \<open>Counting the cards\<close>

lemma cardCount_two:
  assumes "players s = [x, y] \<or> players s = [y, x]" "hands s x = Some hx" "hands s y = Some hy"
  shows "cardCount s = length (deck s) + (case trumpCard s of None \<Rightarrow> 0 | Some c \<Rightarrow> 1)
           + length hx + length hy + tableCount (table s)"
  using assms by (auto simp: cardCount_def handSize_def)

lemma move_cardCount:
  assumes inv: "sessionInv s" and a: "applyMove m s = Inr (True, s')"
  shows "cardCount s' + discarded m s s' = cardCount s"
proof -
  from inv obtain x y hx hy where f:
    "attacker s = Some x" "defender s = Some y" "x \<noteq> y" "truthy x" "truthy y"
    "players s = [x, y] \<or> players s = [y, x]" "dom (hands s) = {x, y}"
    "hands s x = Some hx" "hands s y = Some hy"
    "\<forall>c \<in> set hx. truthy c" "\<forall>c \<in> set hy. truthy c"
    "deck s \<noteq> [] \<longrightarrow>
       6 \<le> length hx + tableCount (table s) \<and> 6 \<le> length hy + tableCount (table s)"
    "phase s \<noteq> Waiting" "phase s = Playing \<longrightarrow> winner s = None"
    "canThrow s \<longrightarrow> allDefended (table s)"
    "\<forall>c \<in> set (deck s). truthy c" "\<forall>c. trumpCard s = Some c \<longrightarrow> truthy c"
    "\<forall>p \<in> set (table s). truthy (attackOf p) \<and> (\<forall>d. defenseOf p = Some d \<longrightarrow> truthy d)"
    "deck s = [] \<longrightarrow> trumpCard s = None"
    by (rule sessionInvE)
  note c0 = cardCount_two [OF f(6,8,9)]
  show ?thesis
  proof (cases m)
    case (Attack p c)
    with a have "attack p c s = Inr (True, s')" by simp
    from attack_True [OF this] f have e: "p = x" "c \<in> set hx" "table s = []"
      and s': "s' = s\<lparr>hands := (hands s)(x \<mapsto> remove1 c hx), table := [CardPair c None],
                    canThrow := False, lastAction := Attacks x c\<rparr>"
      by auto
    have l: "Suc (length (remove1 c hx)) = length hx" using e(2) by (rule length_remove1_mem)
    have p': "players s' = [x, y] \<or> players s' = [y, x]" "hands s' x = Some (remove1 c hx)"
      "hands s' y = Some hy"
      using f(3,6,9) by (simp_all add: s')
    from cardCount_two [OF p'] c0 l e(3) show ?thesis
      by (simp add: s' discarded_def Attack)
  next
    case (Defend p ac dc)
    with a have "defend p ac dc s = Inr (True, s')" by simp
    from defend_True [OF this] f have e: "p = y" "dc \<in> set hy"
      "find (\<lambda>q. attackOf q = ac \<and> defenseOf q = None) (table s) \<noteq> None"
      and s': "s' = s\<lparr>hands := (hands s)(y \<mapsto> remove1 dc hy),
                    table := setDefense ac dc (table s),
                    canThrow := allDefended (setDefense ac dc (table s)),
                    lastAction := Defends y dc\<rparr>"
      by auto
    have l: "Suc (length (remove1 dc hy)) = length hy" using e(2) by (rule length_remove1_mem)
    have n: "tableCount (setDefense ac dc (table s)) = Suc (tableCount (table s))"
      using e(3) by (rule setDefense_count)
    have p': "players s' = [x, y] \<or> players s' = [y, x]" "hands s' x = Some hx"
      "hands s' y = Some (remove1 dc hy)"
      using f(3,6,8) by (simp_all add: s')
    from cardCount_two [OF p'] c0 l n show ?thesis
      by (simp add: s' discarded_def Defend)
  next
    case (ThrowIn p c)
    with a have "throwIn p c s = Inr (True, s')" by simp
    from throwIn_True [OF this] obtain hand where e: "hands s p = Some hand" "c \<in> set hand"
      and s': "s' = s\<lparr>hands := (hands s)(p \<mapsto> remove1 c hand),
                    table := table s @ [CardPair c None],
                    canThrow := False, lastAction := ThrowsIn p c\<rparr>"
      by auto
    have l: "Suc (length (remove1 c hand)) = length hand" using e(2) by (rule length_remove1_mem)
    from e(1) f(7) have "p = x \<or> p = y" by auto
    then show ?thesis
    proof
      assume px: "p = x"
      then have h: "hand = hx" using e(1) f(8) by simp
      have p': "players s' = [x, y] \<or> players s' = [y, x]" "hands s' x = Some (remove1 c hx)"
        "hands s' y = Some hy"
        using f(3,6,9) px h by (simp_all add: s')
      from cardCount_two [OF p'] c0 l h show ?thesis
        by (simp add: s' discarded_def ThrowIn)
    next
      assume py: "p = y"
      then have h: "hand = hy" using e(1) f(9) by simp
      have p': "players s' = [x, y] \<or> players s' = [y, x]" "hands s' x = Some hx"
        "hands s' y = Some (remove1 c hy)"
        using f(3,6,8) py h by (simp_all add: s')
      from cardCount_two [OF p'] c0 l h show ?thesis
        by (simp add: s' discarded_def ThrowIn)
    qed
  next
    case (PassTurn p)
    with a have "passTurn p s = Inr (True, s')" by simp
    from passTurn_summary [OF f this] obtain hx1 hy1 where q:
      "length hx1 + length hy1 + length (deck s') = length hx + length hy + length (deck s)"
      "hands s' x = Some hx1" "hands s' y = Some hy1" "players s' = players s" "table s' = []"
      "trumpCard s' = (if deck s' = [] then None else trumpCard s)"
      by (elim exE conjE) (rule that; assumption)
    have p': "players s' = [x, y] \<or> players s' = [y, x]" using q(4) f(6) by simp
    from cardCount_two [OF p' q(2,3)] c0 q(1,5,6) show ?thesis
      by (cases "trumpCard s") (auto simp: discarded_def PassTurn)
  next
    case (TakeCards p)
    with a have "takeCards p s = Inr (True, s')" by simp
    from takeCards_summary [OF f this] obtain hx1 hy1 where q:
      "length hy1 = length hy + tableCount (table s)"
      "length hx1 + length (deck s') = length hx + length (deck s)"
      "hands s' x = Some hx1" "hands s' y = Some hy1" "players s' = players s" "table s' = []"
      "trumpCard s' = (if deck s' = [] then None else trumpCard s)"
      by (elim exE conjE) (rule that; assumption)
    have p': "players s' = [x, y] \<or> players s' = [y, x]" using q(5) f(6) by simp
    from cardCount_two [OF p' q(3,4)] c0 q(1,2,6,7) show ?thesis
      by (cases "trumpCard s") (auto simp: discarded_def TakeCards)
  qed
qed

lemma reachable_cardCount: "reachable s \<Longrightarrow> cardCount s \<le> 36"
proof (induction rule: reachable.induct)
  case (dealt a b rnd0 coin0 rid s0 rnd coin s)
  from dealt_sessionInv [OF dealt] show ?case by simp
next
  case (moved s m ok s')
  show ?case
  proof (cases ok)
    case True
    from move_cardCount [OF reachable_sessionInv [OF moved(1)]] moved(2) True
    have "cardCount s' + discarded m s s' = cardCount s" by simp
    with moved.IH show ?thesis by simp
  next
    case False
    with moved(2) have "s' = s" by (simp add: applyMove_False)
    with moved.IH show ?thesis by simp
  qed
qed

text \<open>
  Claim C1, as the spec states it, fails: \<open>passTurn\<close> drops the pairs of the table, and
  the refill drops the trump indicator when the deck runs out. After the deal \<open>A\<close> attacks,
  \<open>B\<close> defends and \<open>A\<close> passes: the match is still played and holds 34 cards.
\<close>

theorem cardCount_after_pass:
  "reachable exDefended \<and> cardCount exDefended = 36
   \<and> passTurn ''A'' exDefended = Inr (True, exEarlyPass)
   \<and> phase exEarlyPass = Playing \<and> cardCount exEarlyPass = 34"
  using reachable_exDefended ex_earlyPass
  by (simp add: cardCount_def handSize_def exDefended_def exEarlyPass_def)

text \<open>
  Claim C1, amended. After the deal the count is 36. In every session that moves lead to
  from there it is 36 at most, and a successful move lowers it by exactly the cards it
  discards: nothing for \<open>attack\<close>, \<open>defend\<close> and \<open>throwIn\<close>; the cards of the table
  for \<open>passTurn\<close>; and, for \<open>passTurn\<close> and \<open>takeCards\<close>, the trump indicator when
  the refill leaves the deck empty. Here \<open>d\<close> is the session after the deal, \<open>s\<close> a
  session that the moves \<open>ms\<close> lead to, and \<open>s'\<close> the session after one more move.
\<close>

theorem cardCount_moves:
  assumes "truthy a" and "truthy b" and "a \<noteq> b"
    and "addPlayer a rnd0 coin0 (newSession rid) = Inr (True, s0)"
    and "addPlayer b rnd coin s0 = Inr (True, d)"
    and "runMoves ms d = Inr s"
    and "applyMove m s = Inr (True, s')"
  shows "cardCount d = 36 \<and> cardCount s \<le> 36
       \<and> cardCount s' + discarded m s s' = cardCount s"
proof -
  from dealt_sessionInv [OF assms(1-5)] have c: "cardCount d = 36" by simp
  from reachable_runMoves [OF reachable.dealt [OF assms(1-5)] assms(6)] have r: "reachable s" .
  from c reachable_cardCount [OF r] move_cardCount [OF reachable_sessionInv [OF r] assms(7)]
  show ?thesis by simp
qed

theorem cardCount_moves_witness:
  "cardCount exDealt = 36
   \<and> attack ''A'' ''6h'' exDealt = Inr (True, exAttacked) \<and> cardCount exAttacked = 36
   \<and> defend ''B'' ''6h'' ''7h'' exAttacked = Inr (True, exDefended)
   \<and> cardCount exDefended = 36
   \<and> takeCards ''B'' exAttacked = Inr (True, exTaken) \<and> cardCount exTaken = 36
   \<and> (\<exists>s'. throwIn ''A'' ''7d'' exDefended = Inr (True, s') \<and> cardCount s' = 36)
   \<and> passTurn ''A'' exDefended = Inr (True, exEarlyPass)
   \<and> discarded (PassTurn ''A'') exDefended exEarlyPass = 2 \<and> cardCount exEarlyPass = 34
   \<and> cardCount exRound2 = 24
   \<and> passTurn ''B'' exRound2 = Inr (True, exPassed2)
   \<and> discarded (PassTurn ''B'') exRound2 exPassed2 = 13 \<and> cardCount exPassed2 = 11"
proof -
  have t: "truthy ''A''" "truthy ''B''" "''A'' \<noteq> ''B''" by (simp_all add: truthy_def)
  note c = cardCount_moves [OF t exDealt_join exDealt_deal]
  have m0: "runMoves [] exDealt = Inr exDealt" by simp
  have m1: "runMoves [Attack ''A'' ''6h''] exDealt = Inr exAttacked"
    using ex_attack by simp
  have m2: "runMoves [Attack ''A'' ''6h'', Defend ''B'' ''6h'' ''7h''] exDealt = Inr exDefended"
    using ex_attack ex_defend by simp
  have p1: "runMoves [PassTurn ''A''] exRound1 = Inr exPassed1" using ex_pass1 by simp
  note m3 = runMoves_append [OF runMoves_append [OF runMoves_append [OF m2 ex_round1] p1] ex_round2]
  have a0: "applyMove (Attack ''A'' ''6h'') exDealt = Inr (True, exAttacked)"
    using ex_attack by simp
  have a1: "applyMove (Defend ''B'' ''6h'' ''7h'') exAttacked = Inr (True, exDefended)"
    using ex_defend by simp
  have a2: "applyMove (TakeCards ''B'') exAttacked = Inr (True, exTaken)"
    using ex_take by simp
  have a3: "applyMove (PassTurn ''A'') exDefended = Inr (True, exEarlyPass)"
    using ex_earlyPass by simp
  have a4: "applyMove (PassTurn ''B'') exRound2 = Inr (True, exPassed2)"
    using ex_pass2 by simp
  have "\<exists>s'. throwIn ''A'' ''7d'' exDefended = Inr (True, s')"
    by (simp add: exDefended_def move_eval card_eval)
  then obtain u where u: "throwIn ''A'' ''7d'' exDefended = Inr (True, u)" by blast
  then have a5: "applyMove (ThrowIn ''A'' ''7d'') exDefended = Inr (True, u)" by simp
  have v: "discarded (PassTurn ''A'') exDefended exEarlyPass = 2"
    "discarded (PassTurn ''B'') exRound2 exPassed2 = 13"
    "cardCount exEarlyPass = 34" "cardCount exPassed2 = 11"
    "discarded (Attack ''A'' ''6h'') exDealt exAttacked = 0"
    "discarded (Defend ''B'' ''6h'' ''7h'') exAttacked exDefended = 0"
    "discarded (TakeCards ''B'') exAttacked exTaken = 0"
    "discarded (ThrowIn ''A'' ''7d'') exDefended u = 0"
    by (simp_all add: discarded_def tableCount_def cardCount_def handSize_def exDefended_def
        exEarlyPass_def exRound2_def exPassed2_def exTaken_def)
  from c [OF m2 a5] v(8) u have w: "\<exists>s'. throwIn ''A'' ''7d'' exDefended = Inr (True, s')
      \<and> cardCount s' = 36"
    using c [OF m2 a3] v(1,3) by auto
  from c [OF m0 a0] c [OF m1 a1] c [OF m1 a2] c [OF m2 a3] c [OF m3 a4] v w
    ex_attack ex_defend ex_take ex_earlyPass ex_pass2
  show ?thesis by simp
qed


subsection \<open>The capacity of the defender\<close>

text \<open>
  Claim C7. \<open>throwIn\<close> returns false and the session unchanged whenever the defender's
  hand does not hold more cards than there are undefended pairs on the table, for every
  caller who holds a hand; \<open>n\<close> is the hand size that \<open>throwIn\<close> computes, 0 without a
  defender. The callers of the repository pass a player of the session, who holds a hand
  (\<open>seated_player\<close> below). In the example \<open>B\<close> holds a 10 when \<open>A\<close> has one card
  left and one pair is undefended, and still holds it when \<open>A\<close> has defended with the last
  card: there the flag is set, the 10 matches the table, and only the capacity rule refuses
  it.
\<close>

theorem throwIn_capacity_rejects:
  assumes "hands s p = Some hand" and "defenderHandSize s = Inr n"
    and "n \<le> length (filter (\<lambda>q. defenseOf q = None) (table s))"
  shows "throwIn p c s = Inr (False, s)"
  using assms by (simp add: throwIn_def Let_def)

theorem throwIn_capacity_rejects_witness:
  "reachable exSpent \<and> phase exSpent = Playing \<and> canThrow exSpent
   \<and> hands exSpent ''B'' = Some [''Qc'', ''10d'']
   \<and> canThrowIn ''10d'' (tableCards exSpent)
   \<and> defenderHandSize exSpent = Inr 0
   \<and> length (filter (\<lambda>q. defenseOf q = None) (table exSpent)) = 0
   \<and> throwIn ''B'' ''10d'' exSpent = Inr (False, exSpent)
   \<and> reachable exThrown
   \<and> defenderHandSize exThrown = Inr 1
   \<and> length (filter (\<lambda>q. defenseOf q = None) (table exThrown)) = 1
   \<and> throwIn ''B'' ''10d'' exThrown = Inr (False, exThrown)"
proof -
  have a: "hands exSpent ''B'' = Some [''Qc'', ''10d'']" "defenderHandSize exSpent = Inr 0"
    "length (filter (\<lambda>q. defenseOf q = None) (table exSpent)) = 0"
    "phase exSpent = Playing" "canThrow exSpent" "canThrowIn ''10d'' (tableCards exSpent)"
    by (simp_all add: exSpent_def defenderHandSize_def tableCards_def pairCards_def card_eval)
  have b: "hands exThrown ''B'' = Some [''Qc'', ''10d'']" "defenderHandSize exThrown = Inr 1"
    "length (filter (\<lambda>q. defenseOf q = None) (table exThrown)) = 1"
    by (simp_all add: exThrown_def defenderHandSize_def card_eval)
  from throwIn_capacity_rejects [OF a(1,2), of "''10d''"]
    throwIn_capacity_rejects [OF b(1,2), of "''10d''"]
    a b reachable_exSpent reachable_exThrown
  show ?thesis by simp
qed

subsection \<open>The end of a round\<close>

theorem passTurn_success_witness:
  "passTurn ''A'' exRound1 = Inr (True, exPassed1)
   \<and> phase exRound1 = Playing \<and> attacker exRound1 = Some ''A''
   \<and> allDefended (table exRound1)
   \<and> table exPassed1 = [] \<and> attacker exPassed1 = Some ''B'' \<and> defender exPassed1 = Some ''A''"
  using passTurn_success [OF ex_pass1] ex_pass1
  by (simp add: exRound1_def allDefended_def)


lemma takeTable_fields:
  "takeTable s = Inr s' \<Longrightarrow>
     players s' = players s \<and> dom (hands s') = dom (hands s) \<and> phase s' = phase s
     \<and> winner s' = winner s \<and> attacker s' = attacker s \<and> defender s' = defender s"
  by (auto simp: takeTable_def split: option.splits if_splits)

lemma winCheck_two:
  assumes c: "checkWinner s2 = Inr s'" and pl: "players s2 = [x, y]" "x \<noteq> y" "truthy x" "truthy y"
    and d: "deck s' = []" "trumpCard s' = None"
  shows "(\<forall>q \<in> set (players s'). \<forall>r \<in> set (players s').
            r \<noteq> q \<and> handSize s' q = 0 \<and> 0 < handSize s' r
              \<longrightarrow> winner s' = Some q \<and> phase s' = Finished)
       \<and> ((\<forall>q \<in> set (players s'). handSize s' q = 0)
              \<longrightarrow> winner s' = winner s2 \<and> phase s' = phase s2)"
proof -
  note k = checkWinner_fields [OF c]
  have e: "deck s2 = []" "\<not> truthyOpt (trumpCard s2)"
    using k d by (simp_all add: truthyOpt_def)
  with c pl(1) obtain s3 where c1: "checkPlayer x s2 = Inr s3" and c2: "checkPlayer y s3 = Inr s'"
    by (auto simp: checkWinner_def split: sum.splits)
  from c1 obtain hx where hx: "hands s2 x = Some hx"
    by (auto simp: checkPlayer_def split: option.splits)
  from c2 obtain hy where "hands s3 y = Some hy"
    by (auto simp: checkPlayer_def split: option.splits)
  with checkPlayer_fields [OF c1] have hy: "hands s2 y = Some hy" by simp
  from checkWinner_effect [OF pl hx hy] c e have s':
    "s' = (if hx = [] \<and> hy \<noteq> []
           then s2\<lparr>winner := Some x, phase := Finished, lastAction := Won x\<rparr>
           else if hy = [] \<and> hx \<noteq> []
           then s2\<lparr>winner := Some y, phase := Finished, lastAction := Won y\<rparr>
           else s2)"
    by simp
  have m: "set (players s') = {x, y}" using k pl(1) by simp
  have h: "handSize s' x = 0 \<longleftrightarrow> hx = []" "handSize s' y = 0 \<longleftrightarrow> hy = []"
    "0 < handSize s' x \<longleftrightarrow> hx \<noteq> []" "0 < handSize s' y \<longleftrightarrow> hy \<noteq> []"
    using k hx hy by (simp_all add: handSize_def)
  have w: "(hx = [] \<and> hy \<noteq> [] \<longrightarrow> winner s' = Some x \<and> phase s' = Finished)
     \<and> (hy = [] \<and> hx \<noteq> [] \<longrightarrow> winner s' = Some y \<and> phase s' = Finished)
     \<and> (hx = [] \<and> hy = [] \<longrightarrow> winner s' = winner s2 \<and> phase s' = phase s2)"
    by (simp add: s')
  have a: "\<forall>q \<in> {x, y}. \<forall>r \<in> {x, y}.
            r \<noteq> q \<and> handSize s' q = 0 \<and> 0 < handSize s' r
              \<longrightarrow> winner s' = Some q \<and> phase s' = Finished"
    using w by (simp add: h)
  have b: "(\<forall>q \<in> {x, y}. handSize s' q = 0) \<longrightarrow> winner s' = winner s2 \<and> phase s' = phase s2"
    using w by (simp add: h)
  from a b show ?thesis unfolding m by (rule conjI)
qed

lemma tableCount_allDefended: "allDefended t \<Longrightarrow> tableCount t = 2 * length t"
  by (induction t) (auto simp: allDefended_def tableCount_def)

lemma reachable_odd:
  "reachable s \<Longrightarrow>
     odd (length (deck s) + (\<Sum>p\<leftarrow>players s. handSize s p) + tableCount (table s))"
proof (induction rule: reachable.induct)
  case (dealt a b rnd0 coin0 rid s0 rnd coin s)
  from dealt_sessionInv [OF dealt] have "cardCount s = 36" "trumpCard s \<noteq> None" by simp_all
  then have "length (deck s) + (\<Sum>p\<leftarrow>players s. handSize s p) + tableCount (table s) = 35"
    by (auto simp: cardCount_def)
  then show ?case by simp
next
  case (moved s m ok s')
  show ?case
  proof (cases ok)
    case False
    with moved(2) have "s' = s" by (simp add: applyMove_False)
    with moved.IH show ?thesis by simp
  next
    case True
    note inv = reachable_sessionInv [OF moved(1)]
    from inv obtain x y hx hy where f:
      "attacker s = Some x" "defender s = Some y" "x \<noteq> y" "truthy x" "truthy y"
      "players s = [x, y] \<or> players s = [y, x]" "dom (hands s) = {x, y}"
      "hands s x = Some hx" "hands s y = Some hy"
      "\<forall>c \<in> set hx. truthy c" "\<forall>c \<in> set hy. truthy c"
      "deck s \<noteq> [] \<longrightarrow>
         6 \<le> length hx + tableCount (table s) \<and> 6 \<le> length hy + tableCount (table s)"
      "phase s \<noteq> Waiting" "phase s = Playing \<longrightarrow> winner s = None"
      "canThrow s \<longrightarrow> allDefended (table s)"
      "\<forall>c \<in> set (deck s). truthy c" "\<forall>c. trumpCard s = Some c \<longrightarrow> truthy c"
      "\<forall>p \<in> set (table s). truthy (attackOf p) \<and> (\<forall>d. defenseOf p = Some d \<longrightarrow> truthy d)"
      "deck s = [] \<longrightarrow> trumpCard s = None"
      by (rule sessionInvE)
    from move_cardCount [OF inv] moved(2) True
    have cc: "cardCount s' + discarded m s s' = cardCount s" by simp
    define X where "X = (\<lambda>u::gameSession. length (deck u) + (\<Sum>p\<leftarrow>players u. handSize u p)
                              + tableCount (table u))"
    define T where "T = (\<lambda>u::gameSession. case trumpCard u of None \<Rightarrow> (0::nat) | Some c \<Rightarrow> 1)"
    have cx: "cardCount u = X u + T u" for u by (simp add: cardCount_def X_def T_def)
    have "\<exists>k. X s = X s' + 2 * k"
    proof (cases m)
      case (Attack p c)
      with moved(2) True have "attack p c s = Inr (True, s')" by simp
      from attack_True [OF this] have "trumpCard s' = trumpCard s" by auto
      with cc cx [of s] cx [of s'] have "X s = X s' + 2 * 0"
        by (simp add: T_def discarded_def Attack)
      then show ?thesis by blast
    next
      case (Defend p ac dc)
      with moved(2) True have "defend p ac dc s = Inr (True, s')" by simp
      from defend_True [OF this] have "trumpCard s' = trumpCard s" by auto
      with cc cx [of s] cx [of s'] have "X s = X s' + 2 * 0"
        by (simp add: T_def discarded_def Defend)
      then show ?thesis by blast
    next
      case (ThrowIn p c)
      with moved(2) True have "throwIn p c s = Inr (True, s')" by simp
      from throwIn_True [OF this] have "trumpCard s' = trumpCard s" by auto
      with cc cx [of s] cx [of s'] have "X s = X s' + 2 * 0"
        by (simp add: T_def discarded_def ThrowIn)
      then show ?thesis by blast
    next
      case (PassTurn p)
      with moved(2) True have a: "passTurn p s = Inr (True, s')" by simp
      from passTurn_summary [OF f a] obtain hx1 hy1 where q:
        "allDefended (table s)"
        "trumpCard s' = (if deck s' = [] then None else trumpCard s)"
        by (elim exE conjE) (rule that; assumption)
      from cc cx [of s] cx [of s'] q(2) have "X s = X s' + tableCount (table s)"
        by (cases "trumpCard s"; cases "deck s' = []") (auto simp: T_def discarded_def PassTurn)
      with tableCount_allDefended [OF q(1)] show ?thesis by auto
    next
      case (TakeCards p)
      with moved(2) True have a: "takeCards p s = Inr (True, s')" by simp
      from takeCards_summary [OF f a] obtain hx1 hy1 where q:
        "trumpCard s' = (if deck s' = [] then None else trumpCard s)"
        by (elim exE conjE) (rule that; assumption)
      from cc cx [of s] cx [of s'] q have "X s = X s' + 2 * 0"
        by (cases "trumpCard s"; cases "deck s' = []") (auto simp: T_def discarded_def TakeCards)
      then show ?thesis by blast
    qed
    then obtain k where "X s = X s' + 2 * k" by blast
    moreover have "odd (X s)" using moved.IH by (simp add: X_def)
    ultimately have "odd (X s')" by simp
    then show ?thesis by (simp add: X_def)
  qed
qed

lemma hands_not_all_empty:
  assumes "reachable s"
    and "passTurn p s = Inr (True, s') \<or> takeCards p s = Inr (True, s')"
    and "deck s' = []"
  shows "\<exists>q \<in> set (players s'). 0 < handSize s' q"
proof -
  from assms(2) obtain m where m: "applyMove m s = Inr (True, s')" "m = PassTurn p \<or> m = TakeCards p"
    by (metis applyMove.simps(4,5))
  from reachable.moved [OF assms(1) m(1)] have r: "reachable s'" .
  have "table s' = []"
  proof -
    from assms(2) show ?thesis
    proof
      assume "passTurn p s = Inr (True, s')"
      from passTurn_True [OF this] obtain s1 where
        r: "refillHands (s\<lparr>table := [], canThrow := False\<rparr>) = Inr s1"
        and c: "checkWinner (s1\<lparr>attacker := defender s1, defender := attacker s1,
                               lastAction := RoundDone\<rparr>) = Inr s'"
        by blast
      from refillHands_fields [OF r] checkWinner_fields [OF c] show ?thesis by simp
    next
      assume "takeCards p s = Inr (True, s')"
      from takeCards_True [OF this] obtain s1 s2 where
        r: "refillHands (s1\<lparr>table := [], canThrow := False\<rparr>) = Inr s2"
        and c: "checkWinner (s2\<lparr>lastAction := Took p\<rparr>) = Inr s'"
        by blast
      from refillHands_fields [OF r] checkWinner_fields [OF c] show ?thesis by simp
    qed
  qed
  with reachable_odd [OF r] assms(3) have o: "odd (\<Sum>p\<leftarrow>players s'. handSize s' p)"
    by (simp add: tableCount_def)
  show ?thesis
  proof (rule ccontr)
    assume "\<not> (\<exists>q \<in> set (players s'). 0 < handSize s' q)"
    then have "\<forall>q \<in> set (players s'). handSize s' q = 0" by auto
    then have "(\<Sum>p\<leftarrow>players s'. handSize s' p) = 0" by (simp add: sum_list_eq_0_iff)
    with o show False by simp
  qed
qed

text \<open>
  Claim C4. After a successful \<open>passTurn\<close> or \<open>takeCards\<close> on a session of two
  players, if the deck is empty and no trump indicator is left, a player with an empty hand
  whose opponent holds cards is the winner and the phase is \<open>finished\<close>; if both hands
  are empty, the winner field is as it was (no winner is set in a match in play) and the
  phase stays \<open>playing\<close>. The second case is stated for every session because no match
  reaches it (\<open>hands_not_all_empty\<close>: the trump indicator is never dealt, so 35 cards are
  in play, and a pass discards pairs); it is checked on the session \<open>exBothOut\<close>.
\<close>

theorem winCheck_after_round:
  assumes "passTurn p s = Inr (True, s') \<or> takeCards p s = Inr (True, s')"
    and "players s = [x, y]" and "x \<noteq> y" and "truthy x" and "truthy y"
    and "deck s' = []" and "trumpCard s' = None"
  shows "(\<forall>q \<in> set (players s'). \<forall>r \<in> set (players s').
            r \<noteq> q \<and> handSize s' q = 0 \<and> 0 < handSize s' r
              \<longrightarrow> winner s' = Some q \<and> phase s' = Finished)
       \<and> ((\<forall>q \<in> set (players s'). handSize s' q = 0)
              \<longrightarrow> winner s' = winner s \<and> phase s' = Playing)"
  using assms(1)
proof
  assume "passTurn p s = Inr (True, s')"
  from passTurn_True [OF this] obtain s1 where
    e: "phase s = Playing"
    and r: "refillHands (s\<lparr>table := [], canThrow := False\<rparr>) = Inr s1"
    and c: "checkWinner (s1\<lparr>attacker := defender s1, defender := attacker s1,
                             lastAction := RoundDone\<rparr>) = Inr s'"
    by blast
  from refillHands_fields [OF r] e assms(2) have k:
    "players (s1\<lparr>attacker := defender s1, defender := attacker s1,
                 lastAction := RoundDone\<rparr>) = [x, y]"
    "winner (s1\<lparr>attacker := defender s1, defender := attacker s1,
                lastAction := RoundDone\<rparr>) = winner s"
    "phase (s1\<lparr>attacker := defender s1, defender := attacker s1,
               lastAction := RoundDone\<rparr>) = Playing"
    by simp_all
  from winCheck_two [OF c k(1) assms(3,4,5,6,7)] show ?thesis by (simp only: k(2,3))
next
  assume "takeCards p s = Inr (True, s')"
  from takeCards_True [OF this] obtain s1 s2 where
    e: "phase s = Playing"
    and t: "takeTable s = Inr s1"
    and r: "refillHands (s1\<lparr>table := [], canThrow := False\<rparr>) = Inr s2"
    and c: "checkWinner (s2\<lparr>lastAction := Took p\<rparr>) = Inr s'"
    by blast
  from takeTable_fields [OF t] refillHands_fields [OF r] e assms(2)
  have k: "players (s2\<lparr>lastAction := Took p\<rparr>) = [x, y]"
    "winner (s2\<lparr>lastAction := Took p\<rparr>) = winner s"
    "phase (s2\<lparr>lastAction := Took p\<rparr>) = Playing"
    by simp_all
  from winCheck_two [OF c k(1) assms(3,4,5,6,7)] show ?thesis by (simp only: k(2,3))
qed

theorem winCheck_after_round_witness:
  "reachable exRound3 \<and> passTurn ''A'' exRound3 = Inr (True, exWon)
   \<and> deck exWon = [] \<and> trumpCard exWon = None
   \<and> handSize exWon ''A'' = 0 \<and> handSize exWon ''B'' = 1
   \<and> winner exWon = Some ''A'' \<and> phase exWon = Finished
   \<and> reachable exCornered \<and> takeCards ''B'' exCornered = Inr (True, exGaveUp)
   \<and> deck exGaveUp = [] \<and> trumpCard exGaveUp = None
   \<and> handSize exGaveUp ''A'' = 0 \<and> handSize exGaveUp ''B'' = 11
   \<and> winner exGaveUp = Some ''A'' \<and> phase exGaveUp = Finished
   \<and> passTurn ''A'' exBothOut = Inr (True, exNobodyWon)
   \<and> deck exNobodyWon = [] \<and> trumpCard exNobodyWon = None
   \<and> handSize exNobodyWon ''A'' = 0 \<and> handSize exNobodyWon ''B'' = 0
   \<and> winner exBothOut = None \<and> winner exNobodyWon = None \<and> phase exNobodyWon = Playing"
proof -
  have n: "''B'' \<noteq> ''A''" "truthy ''A''" "truthy ''B''" "''A'' \<noteq> ''B''"
    by (simp_all add: truthy_def)
  have w: "players exRound3 = [''A'', ''B'']" "deck exWon = []" "trumpCard exWon = None"
    "''A'' \<in> set (players exWon)" "''B'' \<in> set (players exWon)"
    "handSize exWon ''A'' = 0" "handSize exWon ''B'' = 1"
    by (simp_all add: exRound3_def exWon_def handSize_def)
  have g: "players exCornered = [''A'', ''B'']" "deck exGaveUp = []" "trumpCard exGaveUp = None"
    "''A'' \<in> set (players exGaveUp)" "''B'' \<in> set (players exGaveUp)"
    "handSize exGaveUp ''A'' = 0" "handSize exGaveUp ''B'' = 11"
    by (simp_all add: exCornered_def exGaveUp_def handSize_def)
  have b: "players exBothOut = [''A'', ''B'']" "deck exNobodyWon = []"
    "trumpCard exNobodyWon = None"
    "\<forall>q \<in> set (players exNobodyWon). handSize exNobodyWon q = 0"
    "handSize exNobodyWon ''A'' = 0" "handSize exNobodyWon ''B'' = 0" "winner exBothOut = None"
    by (simp_all add: exBothOut_def exNobodyWon_def handSize_def)
  note t1 = winCheck_after_round [OF disjI1 [OF ex_pass3] w(1) n(4,2,3) w(2,3)]
  from bspec [OF bspec [OF conjunct1 [OF t1] w(4)] w(5)] n(1) w(6,7)
  have r1: "winner exWon = Some ''A'' \<and> phase exWon = Finished" by simp
  note t2 = winCheck_after_round [OF disjI2 [OF ex_gaveUp] g(1) n(4,2,3) g(2,3)]
  from bspec [OF bspec [OF conjunct1 [OF t2] g(4)] g(5)] n(1) g(6,7)
  have r2: "winner exGaveUp = Some ''A'' \<and> phase exGaveUp = Finished" by simp
  note t3 = winCheck_after_round [OF disjI1 [OF ex_nobodyWon] b(1) n(4,2,3) b(2,3)]
  from mp [OF conjunct2 [OF t3] b(4)] b(7)
  have r3: "winner exNobodyWon = None \<and> phase exNobodyWon = Playing" by simp
  from r1 r2 r3 reachable_exRound3 reachable_exCornered ex_pass3 ex_gaveUp ex_nobodyWon w g b
  show ?thesis by simp
qed

text \<open>
  Claim C6. After a successful \<open>takeCards\<close> in a match in play the caller is the defender,
  attacker and defender are who they were, the table is empty, and the defender's hand has
  grown by exactly the number of cards that were on the table, attack and defense sides
  together.
\<close>

theorem takeCards_success:
  assumes "reachable s" and "takeCards p s = Inr (True, s')"
  shows "defender s = Some p \<and> attacker s' = attacker s \<and> defender s' = defender s
       \<and> table s' = [] \<and> handSize s' p = handSize s p + tableCount (table s)"
proof -
  from reachable_sessionInv [OF assms(1)] obtain x y hx hy where f:
    "attacker s = Some x" "defender s = Some y" "x \<noteq> y" "truthy x" "truthy y"
    "players s = [x, y] \<or> players s = [y, x]" "dom (hands s) = {x, y}"
    "hands s x = Some hx" "hands s y = Some hy"
    "\<forall>c \<in> set hx. truthy c" "\<forall>c \<in> set hy. truthy c"
    "deck s \<noteq> [] \<longrightarrow>
       6 \<le> length hx + tableCount (table s) \<and> 6 \<le> length hy + tableCount (table s)"
    "phase s \<noteq> Waiting" "phase s = Playing \<longrightarrow> winner s = None"
    "canThrow s \<longrightarrow> allDefended (table s)"
    "\<forall>c \<in> set (deck s). truthy c" "\<forall>c. trumpCard s = Some c \<longrightarrow> truthy c"
    "\<forall>p \<in> set (table s). truthy (attackOf p) \<and> (\<forall>d. defenseOf p = Some d \<longrightarrow> truthy d)"
    "deck s = [] \<longrightarrow> trumpCard s = None"
    by (rule sessionInvE)
  from takeCards_summary [OF f assms(2)] obtain hx1 hy1 where q:
    "p = y" "attacker s' = Some x" "defender s' = Some y"
    "length hy1 = length hy + tableCount (table s)"
    "hands s' y = Some hy1" "table s' = []"
    by (elim exE conjE) (rule that; assumption)
  from q f(1,2,9) show ?thesis by (simp add: handSize_def)
qed

theorem takeCards_success_witness:
  "reachable exAttacked \<and> takeCards ''B'' exAttacked = Inr (True, exTaken)
   \<and> attacker exTaken = Some ''A'' \<and> defender exTaken = Some ''B'' \<and> table exTaken = []
   \<and> handSize exAttacked ''B'' = 6 \<and> tableCount (table exAttacked) = 1
   \<and> handSize exTaken ''B'' = 7"
proof -
  have v: "handSize exAttacked ''B'' = 6" "tableCount (table exAttacked) = 1"
    "attacker exAttacked = Some ''A''" "defender exAttacked = Some ''B''"
    by (simp_all add: exAttacked_def handSize_def)
  from takeCards_success [OF reachable_exAttacked ex_take] v reachable_exAttacked ex_take
  show ?thesis by simp
qed

text \<open>
  Claim C10. In a match in play with an empty table, \<open>passTurn\<close> by the attacker succeeds:
  the hands are refilled, the roles are swapped and the winner is checked, and the table
  stays empty.
\<close>

theorem passTurn_empty_table:
  assumes "reachable s" and "phase s = Playing" and "attacker s = Some p" and "table s = []"
  shows "\<exists>s1 s'. refillHands (s\<lparr>table := [], canThrow := False\<rparr>) = Inr s1
           \<and> checkWinner (s1\<lparr>attacker := defender s1, defender := attacker s1,
                               lastAction := RoundDone\<rparr>) = Inr s'
           \<and> passTurn p s = Inr (True, s')
           \<and> attacker s' = defender s \<and> defender s' = attacker s \<and> table s' = []"
proof -
  from reachable_sessionInv [OF assms(1)] obtain x y hx hy where f:
    "attacker s = Some x" "defender s = Some y" "x \<noteq> y" "truthy x" "truthy y"
    "players s = [x, y] \<or> players s = [y, x]" "dom (hands s) = {x, y}"
    "hands s x = Some hx" "hands s y = Some hy"
    "\<forall>c \<in> set hx. truthy c" "\<forall>c \<in> set hy. truthy c"
    "deck s \<noteq> [] \<longrightarrow>
       6 \<le> length hx + tableCount (table s) \<and> 6 \<le> length hy + tableCount (table s)"
    "phase s \<noteq> Waiting" "phase s = Playing \<longrightarrow> winner s = None"
    "canThrow s \<longrightarrow> allDefended (table s)"
    "\<forall>c \<in> set (deck s). truthy c" "\<forall>c. trumpCard s = Some c \<longrightarrow> truthy c"
    "\<forall>p \<in> set (table s). truthy (attackOf p) \<and> (\<forall>d. defenseOf p = Some d \<longrightarrow> truthy d)"
    "deck s = [] \<longrightarrow> trumpCard s = None"
    by (rule sessionInvE)
  define s0 where "s0 = s\<lparr>table := [], canThrow := False\<rparr>"
  have g: "attacker s0 = Some x" "defender s0 = Some y" "hands s0 x = Some hx"
    "hands s0 y = Some hy" "\<forall>c \<in> set (deck s0). truthy c"
    using f by (simp_all add: s0_def)
  from refillHands_two [OF g(1,2) f(4,5,3) g(3,4,5)] obtain s1 hx1 hy1 where r:
    "refillHands s0 = Inr s1" "hands s1 x = Some hx1" "hands s1 y = Some hy1"
    by (elim exE conjE) (rule that; assumption)
  from refillHands_fields [OF r(1)] have k: "players s1 = players s" "table s1 = []"
    "attacker s1 = attacker s" "defender s1 = defender s"
    by (simp_all add: s0_def)
  define s2 where "s2 = s1\<lparr>attacker := defender s1, defender := attacker s1,
                               lastAction := RoundDone\<rparr>"
  have m: "players s2 = [x, y] \<or> players s2 = [y, x]" "hands s2 x = Some hx1"
    "hands s2 y = Some hy1"
    using k f(6) r by (simp_all add: s2_def)
  from checkWinner_two_props [OF m(1) f(3,4,5) m(2,3)] obtain s' where w:
    "checkWinner s2 = Inr s'" "table s' = table s2" "attacker s' = attacker s2"
    "defender s' = defender s2"
    by (elim exE conjE) (rule that; assumption)
  have ad: "allDefended (table s)" using assms(4) by (simp add: allDefended_def)
  have e: "passTurn p s = Inr (True, s')"
    using assms(2,3) ad r(1) w(1) by (simp add: passTurn_def s0_def s2_def)
  show ?thesis
    apply (rule exI [of _ s1], rule exI [of _ s'])
    using r(1) w e k by (simp add: s0_def s2_def)
qed

theorem passTurn_empty_table_witness:
  "reachable exDealt \<and> phase exDealt = Playing \<and> attacker exDealt = Some ''A''
   \<and> table exDealt = []
   \<and> (\<exists>s'. passTurn ''A'' exDealt = Inr (True, s')
         \<and> attacker s' = Some ''B'' \<and> defender s' = Some ''A'' \<and> table s' = [])"
proof -
  have v: "phase exDealt = Playing" "attacker exDealt = Some ''A''" "table exDealt = []"
    "defender exDealt = Some ''B''"
    by (simp_all add: exDealt_def)
  from passTurn_empty_table [OF reachable_exDealt v(1,2,3)] v reachable_exDealt
  show ?thesis by auto
qed

subsection \<open>State views\<close>

lemma hideHands_result:
  assumes "\<forall>q \<in> set ps. q \<noteq> p \<longrightarrow> hands st q \<noteq> None"
  shows "forEach (hideHand p st) ps m =
     Inr (\<lambda>q. if q \<in> set ps
               then (if q = p then hands st q
                     else map_option (\<lambda>h. replicate (length h) ''back'') (hands st q))
               else m q)"
  using assms
proof (induction ps arbitrary: m)
  case Nil
  then show ?case by simp
next
  case (Cons a ps)
  have r: "\<forall>q \<in> set ps. q \<noteq> p \<longrightarrow> hands st q \<noteq> None" using Cons.prems by simp
  define m' where "m' = (if a = p then m(a := hands st a)
                         else m(a := map_option (\<lambda>h. replicate (length h) ''back'') (hands st a)))"
  have s: "hideHand p st a m = Inr m'"
  proof (cases "a = p")
    case True
    then show ?thesis by (simp add: hideHand_def m'_def)
  next
    case False
    with Cons.prems obtain h where "hands st a = Some h" by auto
    with False show ?thesis by (simp add: hideHand_def m'_def)
  qed
  have e: "(\<lambda>q. if q \<in> set ps
               then (if q = p then hands st q
                     else map_option (\<lambda>h. replicate (length h) ''back'') (hands st q))
               else m' q)
         = (\<lambda>q. if q \<in> set (a # ps)
               then (if q = p then hands st q
                     else map_option (\<lambda>h. replicate (length h) ''back'') (hands st q))
               else m q)"
    by (rule ext) (simp add: m'_def)
  have "forEach (hideHand p st) (a # ps) m = forEach (hideHand p st) ps m'"
    using s by simp
  with Cons.IH [OF r, of m'] e show ?case by simp
qed

text \<open>What the view does hide: when every other player of the session has a hand, the view
  of player \<open>p\<close> is the state with \<open>hands\<close> replaced and every other field as it is;
  the new \<open>hands\<close> hold the hand of \<open>p\<close> and, for every other player, one
  \<^verbatim>\<open>'back'\<close> per card. Two states that differ only in the cards the other players
  hold, with equal counts, have the same view.\<close>

lemma getStateForPlayer_hands:
  assumes "\<forall>q \<in> set (players s). \<exists>h h'. hands s q = Some h \<and> H q = Some h'
             \<and> length h' = length h \<and> (q = p \<longrightarrow> h' = h)"
  shows "getStateForPlayer p (s\<lparr>hands := H\<rparr>) = getStateForPlayer p s
       \<and> (\<exists>v. getStateForPlayer p s = Inr v \<and> v\<lparr>hands := hands s\<rparr> = s
             \<and> (\<forall>q. hands v q =
                   (if q \<in> set (players s)
                    then (if q = p then hands s q
                          else map_option (\<lambda>h. replicate (length h) ''back'') (hands s q))
                    else None)))"
proof -
  have hs: "\<exists>h h'. hands s q = Some h \<and> H q = Some h' \<and> length h' = length h
              \<and> (q = p \<longrightarrow> h' = h)" if "q \<in> set (players s)" for q
    using assms that by (rule bspec)
  have a: "\<forall>q \<in> set (players s). q \<noteq> p \<longrightarrow> hands s q \<noteq> None"
  proof (intro ballI impI)
    fix q assume "q \<in> set (players s)"
    from hs [OF this] obtain h where "hands s q = Some h" by (elim exE conjE)
    then show "hands s q \<noteq> None" by simp
  qed
  have b: "\<forall>q \<in> set (players s). q \<noteq> p \<longrightarrow> hands (s\<lparr>hands := H\<rparr>) q \<noteq> None"
  proof (intro ballI impI)
    fix q assume "q \<in> set (players s)"
    from hs [OF this] obtain h' where "H q = Some h'" by (elim exE conjE)
    then show "hands (s\<lparr>hands := H\<rparr>) q \<noteq> None" by simp
  qed
  define V where "V = (\<lambda>G q. if q \<in> set (players s)
               then (if q = p then G q
                     else map_option (\<lambda>h. replicate (length h) ''back'') (G q))
               else (None :: card list option))"
  have e: "V H = V (hands s)"
  proof (rule ext)
    fix q
    show "V H q = V (hands s) q"
    proof (cases "q \<in> set (players s)")
      case True
      from hs [OF this] obtain h h' where "hands s q = Some h" "H q = Some h'"
        "length h' = length h" "q = p \<longrightarrow> h' = h" by (elim exE conjE)
      then show ?thesis by (cases "q = p") (simp_all add: V_def)
    next
      case False
      then show ?thesis by (simp add: V_def)
    qed
  qed
  have v1: "getStateForPlayer p s = Inr (s\<lparr>hands := V (hands s)\<rparr>)"
    using hideHands_result [OF a, of Map.empty]
    by (simp add: getStateForPlayer_def getState_def Let_def V_def)
  have v2: "getStateForPlayer p (s\<lparr>hands := H\<rparr>) = Inr (s\<lparr>hands := V H\<rparr>)"
    using hideHands_result [OF b, of Map.empty]
    by (simp add: getStateForPlayer_def getState_def Let_def V_def cong: if_cong)
  have c1: "getStateForPlayer p (s\<lparr>hands := H\<rparr>) = getStateForPlayer p s"
    by (simp only: v1 v2 e)
  have c2: "\<exists>v. getStateForPlayer p s = Inr v \<and> v\<lparr>hands := hands s\<rparr> = s
             \<and> (\<forall>q. hands v q =
                   (if q \<in> set (players s)
                    then (if q = p then hands s q
                          else map_option (\<lambda>h. replicate (length h) ''back'') (hands s q))
                    else None))"
    by (rule exI [of _ "s\<lparr>hands := V (hands s)\<rparr>"]) (simp add: v1 V_def)
  from c1 c2 show ?thesis by (rule conjI)
qed

text \<open>
  Claim C9 fails for the deck: the view is the state with only \<open>hands\<close> replaced, so
  it carries the cards of the deck in their order, not a count. After the deal of the
  example the view of \<open>A\<close> shows six \<^verbatim>\<open>'back'\<close> cards for \<open>B\<close> and lists the 23
  cards of the deck; the cards that are neither in the deck of the view, nor its trump
  indicator, nor in the hand it shows for \<open>A\<close> are the six cards of \<open>B\<close>, and sorted as
  a hand they are the hand of \<open>B\<close>.
\<close>

theorem view_shows_deck:
  "reachable exDealt \<and> getStateForPlayer ''A'' exDealt = Inr exViewA
   \<and> hands exDealt ''B'' = Some [''9c'', ''Qc'', ''8d'', ''Jd'', ''7h'', ''10h'']
   \<and> hands exViewA ''B'' = Some [''back'', ''back'', ''back'', ''back'', ''back'', ''back'']
   \<and> deck exViewA =
       [''8h'', ''Jh'', ''Qd'', ''Qh'', ''Kh'', ''Js'', ''Qs'', ''Ks'', ''Ah'', ''8s'', ''Ac'',
        ''6d'', ''6c'', ''6s'', ''9s'', ''10c'', ''Kd'', ''9d'', ''7c'', ''7s'', ''10s'', ''Kc'', ''Ad'']
   \<and> sortHand
        (filter (\<lambda>c. c \<notin> set (deck exViewA) \<and> Some c \<noteq> trumpCard exViewA
                    \<and> c \<notin> set (the (hands exViewA ''A'')))
           generateDeck)
        (trumpSuit exViewA)
       = [''9c'', ''Qc'', ''8d'', ''Jd'', ''7h'', ''10h'']"
proof -
  have a: "getStateForPlayer ''A'' exDealt = Inr exViewA"
    by (simp add: getStateForPlayer_def getState_def hideHand_def exDealt_def exViewA_def)
  have b: "sortHand
        (filter (\<lambda>c. c \<notin> set (deck exViewA) \<and> Some c \<noteq> trumpCard exViewA
                    \<and> c \<notin> set (the (hands exViewA ''A'')))
           generateDeck)
        (trumpSuit exViewA)
       = [''9c'', ''Qc'', ''8d'', ''Jd'', ''7h'', ''10h'']"
    by (simp add: exViewA_def generateDeck_unfold card_eval)
  from reachable_exDealt a b show ?thesis by (simp add: exDealt_def exViewA_def)
qed

section \<open>Facts about the registry\<close>


subsection \<open>Who plays in a session\<close>

lemma dealCard_players: "dealCard p s = Inr s' \<Longrightarrow> players s' = players s"
  by (auto simp: dealCard_def Let_def split: if_splits option.splits)

lemma dealRounds_players: "dealRounds n s = Inr s' \<Longrightarrow> players s' = players s"
proof (induction n arbitrary: s)
  case 0
  then show ?case by simp
next
  case (Suc n)
  from Suc.prems obtain s1 where a: "forEach dealCard (players s) s = Inr s1"
    and b: "dealRounds n s1 = Inr s'" by (auto split: sum.splits)
  have "players s1 = players s"
    by (rule forEach_frame [where f = dealCard, OF dealCard_players _ _ a]) simp_all
  with Suc.IH [OF b] show ?case by simp
qed

lemma sortPlayerHand_players: "sortPlayerHand p s = Inr s' \<Longrightarrow> players s' = players s"
  by (auto simp: sortPlayerHand_def split: option.splits)

lemma determineFirstAttacker_players:
  "determineFirstAttacker coin s = Inr s' \<Longrightarrow> players s' = players s"
  by (auto simp: determineFirstAttacker_def split: sum.splits)

lemma startGame_players:
  assumes "startGame rnd coin s = Inr s'"
  shows "players s' = players s"
proof -
  from assms obtain s1 where
    a: "dealRounds 6 (s\<lparr>deck := shuffleDeck rnd generateDeck\<rparr>) = Inr s1"
    by (auto simp: startGame_def split: sum.splits)
  define s2 where "s2 = (case deck s1 of
                      [] \<Rightarrow> s1\<lparr>trumpCard := None\<rparr>
                    | c # rest \<Rightarrow>
                        s1\<lparr>deck := rest, trumpCard := (if truthy c then Some c else None)\<rparr>)"
  define s3 where "s3 = (case trumpCard s2 of
                      None \<Rightarrow> s2
                    | Some c \<Rightarrow> s2\<lparr>trumpSuit := Some (snd (parseCard c))\<rparr>)"
  have p3: "players s3 = players s1"
    by (simp add: s3_def s2_def split: list.splits option.splits)
  from assms a obtain s4 where b: "determineFirstAttacker coin s3 = Inr s4"
    unfolding s3_def s2_def by (auto simp: startGame_def Let_def split: sum.splits)
  define s5 where "s5 = s4\<lparr>defender :=
                              (case find (\<lambda>p. Some p \<noteq> attacker s4) (players s4) of
                                 None \<Rightarrow> None
                               | Some q \<Rightarrow> if truthy q then Some q else None)\<rparr>"
  from assms a b obtain s6 where c: "forEach sortPlayerHand (players s5) s5 = Inr s6"
    and d: "s' = s6\<lparr>phase := Playing, lastAction := GameStarted\<rparr>"
    unfolding s5_def s3_def s2_def by (auto simp: startGame_def Let_def split: sum.splits)
  have "players s6 = players s5"
    by (rule forEach_frame [where f = sortPlayerHand, OF sortPlayerHand_players _ _ c]) simp_all
  with dealRounds_players [OF a] determineFirstAttacker_players [OF b] p3 d show ?thesis
    by (simp add: s5_def)
qed

lemma addPlayer_players:
  assumes "addPlayer p rnd coin s = Inr (ok, s')"
  shows "players s' = (if ok then players s @ [p] else players s)"
  using assms
  by (auto simp: addPlayer_def Let_def split: if_splits sum.splits dest: startGame_players)

lemma addPlayer_ok:
  assumes "addPlayer p rnd coin s = Inr (ok, s')" "length (players s) < 2" "p \<notin> set (players s)"
  shows "ok"
  using assms by (auto simp: addPlayer_def Let_def split: if_splits sum.splits)

lemma removePlayer_players: "players (removePlayer p s) = filter (\<lambda>q. q \<noteq> p) (players s)"
  by (simp add: removePlayer_def Let_def)

lemma takeTable_players: "takeTable s = Inr s' \<Longrightarrow> players s' = players s"
  by (auto simp: takeTable_def split: option.splits if_splits)

lemma applyMove_players:
  assumes "applyMove m s = Inr (ok, s')"
  shows "players s' = players s"
proof (cases ok)
  case False
  with assms have "s' = s" by (simp add: applyMove_False)
  then show ?thesis by simp
next
  case True
  show ?thesis
  proof (cases m)
    case (Attack p c)
    with assms True have "attack p c s = Inr (True, s')" by simp
    from attack_True [OF this] show ?thesis by auto
  next
    case (Defend p a d)
    with assms True have "defend p a d s = Inr (True, s')" by simp
    from defend_True [OF this] show ?thesis by auto
  next
    case (ThrowIn p c)
    with assms True have "throwIn p c s = Inr (True, s')" by simp
    from throwIn_True [OF this] show ?thesis by auto
  next
    case (PassTurn p)
    with assms True have "passTurn p s = Inr (True, s')" by simp
    from passTurn_True [OF this] obtain s1 where
      r: "refillHands (s\<lparr>table := [], canThrow := False\<rparr>) = Inr s1"
      and c: "checkWinner (s1\<lparr>attacker := defender s1, defender := attacker s1,
                               lastAction := RoundDone\<rparr>) = Inr s'"
      by blast
    from refillHands_fields [OF r] checkWinner_fields [OF c] show ?thesis by simp
  next
    case (TakeCards p)
    with assms True have "takeCards p s = Inr (True, s')" by simp
    from takeCards_True [OF this] obtain s1 s2 where
      t: "takeTable s = Inr s1"
      and r: "refillHands (s1\<lparr>table := [], canThrow := False\<rparr>) = Inr s2"
      and c: "checkWinner (s2\<lparr>lastAction := Took p\<rparr>) = Inr s'"
      by blast
    from takeTable_players [OF t] refillHands_fields [OF r] checkWinner_fields [OF c]
    show ?thesis by simp
  qed
qed

subsection \<open>Association lists\<close>

lemma map_of_fold_delete:
  "map_of (fold AList.delete ks al) k = (if k \<in> set ks then None else map_of al k)"
  by (induction ks arbitrary: al) (auto simp: delete_conv')

lemma distinct_fold_delete:
  "distinct (map fst al) \<Longrightarrow> distinct (map fst (fold AList.delete ks al))"
  by (induction ks arbitrary: al) (auto simp: distinct_delete)

lemma generateRoomId_fresh: "generateRoomId ds ss = Some r \<Longrightarrow> map_of ss r = None"
  by (induction ds) (auto simp: Let_def split: if_splits)


subsection \<open>The invariant of the registry\<close>

lemma registryInvI:
  assumes "distinct (map fst (sessions g))" "distinct (map fst (playerRooms g))"
    "\<And>p r. map_of (playerRooms g) p = Some r \<Longrightarrow>
       \<exists>session. map_of (sessions g) r = Some session \<and> p \<in> set (players session)"
    "\<And>r session p. map_of (sessions g) r = Some session \<Longrightarrow> p \<in> set (players session) \<Longrightarrow>
       map_of (playerRooms g) p = Some r"
  shows "registryInv g"
  unfolding registryInv_def using assms by blast

lemma registryInvD:
  assumes "registryInv g"
  shows "distinct (map fst (sessions g))" "distinct (map fst (playerRooms g))"
    "map_of (playerRooms g) p = Some r \<Longrightarrow>
       \<exists>session. map_of (sessions g) r = Some session \<and> p \<in> set (players session)"
    "map_of (sessions g) r = Some session \<Longrightarrow> p \<in> set (players session) \<Longrightarrow>
       map_of (playerRooms g) p = Some r"
  using assms unfolding registryInv_def by blast+

lemma newManager_inv: "registryInv newManager"
  by (simp add: registryInv_def newManager_def)

text \<open>Putting player \<open>p\<close>, so far unregistered, into room \<open>rid\<close>, whose session becomes
  \<open>s1\<close> with \<open>p\<close> added to the players it had (none for a new room).\<close>

lemma enter_inv:
  assumes inv: "registryInv g" and np: "map_of (playerRooms g) p = None"
    and old: "case map_of (sessions g) rid of None \<Rightarrow> ps = [] | Some s0 \<Rightarrow> ps = players s0"
    and new: "players s1 = ps @ [p]"
  shows "registryInv (g\<lparr>sessions := AList.update rid s1 (sessions g),
                        playerRooms := AList.update p rid (playerRooms g)\<rparr>)"
proof (rule registryInvI)
  show "distinct (map fst (sessions (g\<lparr>sessions := AList.update rid s1 (sessions g),
                        playerRooms := AList.update p rid (playerRooms g)\<rparr>)))"
    using registryInvD(1) [OF inv] by (simp add: distinct_update)
  show "distinct (map fst (playerRooms (g\<lparr>sessions := AList.update rid s1 (sessions g),
                        playerRooms := AList.update p rid (playerRooms g)\<rparr>)))"
    using registryInvD(2) [OF inv] by (simp add: distinct_update)
next
  fix q r
  assume a: "map_of (playerRooms (g\<lparr>sessions := AList.update rid s1 (sessions g),
                        playerRooms := AList.update p rid (playerRooms g)\<rparr>)) q = Some r"
  show "\<exists>session. map_of (sessions (g\<lparr>sessions := AList.update rid s1 (sessions g),
                        playerRooms := AList.update p rid (playerRooms g)\<rparr>)) r = Some session
          \<and> q \<in> set (players session)"
  proof (cases "q = p")
    case True
    with a have "r = rid" by (simp add: update_conv')
    with True new show ?thesis by (simp add: update_conv')
  next
    case False
    with a have m: "map_of (playerRooms g) q = Some r" by (simp add: update_conv')
    from registryInvD(3) [OF inv m] obtain s0 where
      s0: "map_of (sessions g) r = Some s0" "q \<in> set (players s0)" by blast
    show ?thesis
    proof (cases "r = rid")
      case True
      with s0 old have "q \<in> set ps" by simp
      with True new show ?thesis by (simp add: update_conv')
    next
      case False
      with s0 show ?thesis by (simp add: update_conv')
    qed
  qed
next
  fix r session q
  assume a: "map_of (sessions (g\<lparr>sessions := AList.update rid s1 (sessions g),
                        playerRooms := AList.update p rid (playerRooms g)\<rparr>)) r = Some session"
    and b: "q \<in> set (players session)"
  show "map_of (playerRooms (g\<lparr>sessions := AList.update rid s1 (sessions g),
                        playerRooms := AList.update p rid (playerRooms g)\<rparr>)) q = Some r"
  proof (cases "r = rid")
    case True
    with a have "session = s1" by (simp add: update_conv')
    with b new have "q = p \<or> q \<in> set ps" by auto
    then show ?thesis
    proof
      assume "q = p"
      with True show ?thesis by (simp add: update_conv')
    next
      assume q: "q \<in> set ps"
      with old obtain s0 where s0: "map_of (sessions g) rid = Some s0" "ps = players s0"
        by (cases "map_of (sessions g) rid") auto
      from registryInvD(4) [OF inv s0(1)] q s0(2) have m: "map_of (playerRooms g) q = Some rid"
        by simp
      with np have "q \<noteq> p" by auto
      with m True show ?thesis by (simp add: update_conv')
    qed
  next
    case False
    with a have s0: "map_of (sessions g) r = Some session" by (simp add: update_conv')
    from registryInvD(4) [OF inv s0 b] have m: "map_of (playerRooms g) q = Some r" .
    with np have "q \<noteq> p" by auto
    with m show ?thesis by (simp add: update_conv')
  qed
qed

lemma createRoom_inv:
  assumes inv: "registryInv g" and c: "createRoom p draws rnd coin g = Some (Inr (out, g'))"
  shows "registryInv g'"
proof (cases "map_of (playerRooms g) p = None")
  case False
  with c have "g' = g" by (auto simp: createRoom_def)
  with inv show ?thesis by simp
next
  case True
  with c obtain rid r where
    f: "generateRoomId draws (sessions g) = Some rid"
    and a: "addPlayer p rnd coin (newSession rid) = Inr r"
    and g': "g' = g\<lparr>sessions := AList.update rid (snd r) (sessions g),
                    playerRooms := AList.update p rid (playerRooms g)\<rparr>"
    by (auto simp: createRoom_def split: option.splits sum.splits)
  from a have a': "addPlayer p rnd coin (newSession rid) = Inr (fst r, snd r)" by simp
  have "fst r" by (rule addPlayer_ok [OF a']) (simp_all add: newSession_def)
  with addPlayer_players [OF a'] have n: "players (snd r) = [] @ [p]"
    by (simp add: newSession_def)
  have o: "case map_of (sessions g) rid of None \<Rightarrow> [] = [] | Some s0 \<Rightarrow> [] = players s0"
    using generateRoomId_fresh [OF f] by simp
  from enter_inv [OF inv True o n] g' show ?thesis by simp
qed

lemma joinRoom_inv:
  assumes inv: "registryInv g" and c: "joinRoom p rid rnd coin g = Inr (out, g')"
  shows "registryInv g'"
proof (cases "out = Success ()")
  case False
  with c have "g' = g"
    by (auto simp: joinRoom_def split: if_splits option.splits sum.splits)
  with inv show ?thesis by simp
next
  case True
  with c obtain s0 r where
    np: "map_of (playerRooms g) p = None"
    and s0: "map_of (sessions g) rid = Some s0" "length (players s0) < 2"
    and a: "addPlayer p rnd coin s0 = Inr r"
    and g': "g' = g\<lparr>sessions := AList.update rid (snd r) (sessions g),
                    playerRooms := AList.update p rid (playerRooms g)\<rparr>"
    by (auto simp: joinRoom_def split: if_splits option.splits sum.splits)
  from a have a': "addPlayer p rnd coin s0 = Inr (fst r, snd r)" by simp
  have "p \<notin> set (players s0)"
    using registryInvD(4) [OF inv s0(1), of p] np by auto
  from addPlayer_ok [OF a' s0(2) this] addPlayer_players [OF a']
  have n: "players (snd r) = players s0 @ [p]" by simp
  have o: "case map_of (sessions g) rid of None \<Rightarrow> players s0 = []
           | Some s \<Rightarrow> players s0 = players s"
    using s0(1) by simp
  from enter_inv [OF inv np o n] g' show ?thesis by simp
qed


text \<open>Replacing the session of a room by one with the same players.\<close>

lemma replace_inv:
  assumes inv: "registryInv g" and s0: "map_of (sessions g) rid = Some s0"
    and same: "players s1 = players s0"
  shows "registryInv (g\<lparr>sessions := AList.update rid s1 (sessions g)\<rparr>)"
proof (rule registryInvI)
  show "distinct (map fst (sessions (g\<lparr>sessions := AList.update rid s1 (sessions g)\<rparr>)))"
    using registryInvD(1) [OF inv] by (simp add: distinct_update)
  show "distinct (map fst (playerRooms (g\<lparr>sessions := AList.update rid s1 (sessions g)\<rparr>)))"
    using registryInvD(2) [OF inv] by simp
next
  fix q r
  assume "map_of (playerRooms (g\<lparr>sessions := AList.update rid s1 (sessions g)\<rparr>)) q = Some r"
  then have m: "map_of (playerRooms g) q = Some r" by simp
  from registryInvD(3) [OF inv m] obtain s where
    s: "map_of (sessions g) r = Some s" "q \<in> set (players s)" by blast
  show "\<exists>session. map_of (sessions (g\<lparr>sessions := AList.update rid s1 (sessions g)\<rparr>)) r
          = Some session \<and> q \<in> set (players session)"
    using s s0 same by (cases "r = rid") (simp_all add: update_conv')
next
  fix r session q
  assume a: "map_of (sessions (g\<lparr>sessions := AList.update rid s1 (sessions g)\<rparr>)) r = Some session"
    and b: "q \<in> set (players session)"
  have "\<exists>s. map_of (sessions g) r = Some s \<and> q \<in> set (players s)"
    using a b s0 same by (cases "r = rid") (simp_all add: update_conv')
  then obtain s where "map_of (sessions g) r = Some s" "q \<in> set (players s)" by blast
  from registryInvD(4) [OF inv this]
  show "map_of (playerRooms (g\<lparr>sessions := AList.update rid s1 (sessions g)\<rparr>)) q = Some r"
    by simp
qed

text \<open>Deleting a room with the entries of all its players.\<close>

lemma drop_inv:
  assumes inv: "registryInv g" and s0: "map_of (sessions g) rid = Some s0"
  shows "registryInv (g\<lparr>sessions := AList.delete rid (sessions g),
                        playerRooms := fold AList.delete (players s0) (playerRooms g)\<rparr>)"
proof (rule registryInvI)
  show "distinct (map fst (sessions (g\<lparr>sessions := AList.delete rid (sessions g),
                        playerRooms := fold AList.delete (players s0) (playerRooms g)\<rparr>)))"
    using registryInvD(1) [OF inv] by (simp add: distinct_delete)
  show "distinct (map fst (playerRooms (g\<lparr>sessions := AList.delete rid (sessions g),
                        playerRooms := fold AList.delete (players s0) (playerRooms g)\<rparr>)))"
    using registryInvD(2) [OF inv] by (simp add: distinct_fold_delete)
next
  fix q r
  assume "map_of (playerRooms (g\<lparr>sessions := AList.delete rid (sessions g),
                        playerRooms := fold AList.delete (players s0) (playerRooms g)\<rparr>)) q = Some r"
  then have m: "map_of (playerRooms g) q = Some r" and n: "q \<notin> set (players s0)"
    by (simp_all add: map_of_fold_delete split: if_splits)
  from registryInvD(3) [OF inv m] obtain s where
    s: "map_of (sessions g) r = Some s" "q \<in> set (players s)" by blast
  with n s0 have "r \<noteq> rid" by auto
  with s show "\<exists>session. map_of (sessions (g\<lparr>sessions := AList.delete rid (sessions g),
                        playerRooms := fold AList.delete (players s0) (playerRooms g)\<rparr>)) r
          = Some session \<and> q \<in> set (players session)"
    by (simp add: delete_conv')
next
  fix r session q
  assume a: "map_of (sessions (g\<lparr>sessions := AList.delete rid (sessions g),
                        playerRooms := fold AList.delete (players s0) (playerRooms g)\<rparr>)) r = Some session"
    and b: "q \<in> set (players session)"
  from a have r: "r \<noteq> rid" and s: "map_of (sessions g) r = Some session"
    by (simp_all add: delete_conv' split: if_splits)
  from registryInvD(4) [OF inv s b] have m: "map_of (playerRooms g) q = Some r" .
  have "q \<notin> set (players s0)"
  proof
    assume "q \<in> set (players s0)"
    from registryInvD(4) [OF inv s0 this] m r show False by simp
  qed
  with m show "map_of (playerRooms (g\<lparr>sessions := AList.delete rid (sessions g),
                        playerRooms := fold AList.delete (players s0) (playerRooms g)\<rparr>)) q = Some r"
    by (simp add: map_of_fold_delete)
qed

lemma dropEmpty_inv:
  assumes inv: "registryInv g" and s0: "map_of (sessions g) rid = Some s0"
    and e: "players s0 = []"
  shows "registryInv (g\<lparr>sessions := AList.delete rid (sessions g)\<rparr>)"
  using drop_inv [OF inv s0] e by simp

lemma leaveRoom_inv:
  assumes inv: "registryInv g" and c: "leaveRoom p g = (out, g')"
  shows "registryInv g'"
proof (cases "out = Success ()")
  case False
  with c have "g' = g"
    by (auto simp: leaveRoom_def Let_def split: if_splits option.splits)
  with inv show ?thesis by simp
next
  case True
  with c obtain rid s0 where
    m: "map_of (playerRooms g) p = Some rid"
    and s0: "map_of (sessions g) rid = Some s0"
    and g': "g' = (let session' = removePlayer p s0;
                       g1 = g\<lparr>sessions := AList.update rid session' (sessions g),
                               playerRooms := AList.delete p (playerRooms g)\<rparr>
                   in if length (players session') = 0
                      then g1\<lparr>sessions := AList.delete rid (sessions g1)\<rparr>
                      else g1)"
    by (auto simp: leaveRoom_def Let_def split: if_splits option.splits)
  define s1 where "s1 = removePlayer p s0"
  define g1 where "g1 = g\<lparr>sessions := AList.update rid s1 (sessions g),
                               playerRooms := AList.delete p (playerRooms g)\<rparr>"
  have ps: "players s1 = filter (\<lambda>q. q \<noteq> p) (players s0)"
    by (simp add: s1_def removePlayer_players)
  have i1: "registryInv g1"
  proof (rule registryInvI)
    show "distinct (map fst (sessions g1))"
      using registryInvD(1) [OF inv] by (simp add: g1_def distinct_update)
    show "distinct (map fst (playerRooms g1))"
      using registryInvD(2) [OF inv] by (simp add: g1_def distinct_delete)
  next
    fix q r
    assume "map_of (playerRooms g1) q = Some r"
    then have qp: "q \<noteq> p" and mq: "map_of (playerRooms g) q = Some r"
      by (simp_all add: g1_def delete_conv' split: if_splits)
    from registryInvD(3) [OF inv mq] obtain s where
      s: "map_of (sessions g) r = Some s" "q \<in> set (players s)" by blast
    show "\<exists>session. map_of (sessions g1) r = Some session \<and> q \<in> set (players session)"
      using s s0 qp ps by (cases "r = rid") (simp_all add: g1_def update_conv')
  next
    fix r session q
    assume a: "map_of (sessions g1) r = Some session" and b: "q \<in> set (players session)"
    show "map_of (playerRooms g1) q = Some r"
    proof (cases "r = rid")
      case True
      with a have "session = s1" by (simp add: g1_def update_conv')
      with b ps have qp: "q \<noteq> p" and q0: "q \<in> set (players s0)" by simp_all
      from registryInvD(4) [OF inv s0 q0] qp True show ?thesis
        by (simp add: g1_def delete_conv')
    next
      case False
      with a have s: "map_of (sessions g) r = Some session" by (simp add: g1_def update_conv')
      from registryInvD(4) [OF inv s b] have mq: "map_of (playerRooms g) q = Some r" .
      with m False have "q \<noteq> p" by auto
      with mq show ?thesis by (simp add: g1_def delete_conv')
    qed
  qed
  have s1: "map_of (sessions g1) rid = Some s1" by (simp add: g1_def update_conv')
  show ?thesis
  proof (cases "length (players s1) = 0")
    case True
    then have "players s1 = []" by simp
    from dropEmpty_inv [OF i1 s1 this] g' True show ?thesis
      by (simp add: s1_def g1_def Let_def)
  next
    case False
    with g' i1 show ?thesis by (simp add: s1_def g1_def Let_def)
  qed
qed

lemma cleanupEmptyLoop_inv:
  assumes "registryInv (fst acc)" "distinct (map fst es)"
    "\<forall>e \<in> set es. map_of (sessions (fst acc)) (fst e) = Some (snd e)"
  shows "registryInv (fst (cleanupEmptyLoop es acc))"
  using assms
proof (induction es arbitrary: acc)
  case Nil
  then show ?case by simp
next
  case (Cons e es)
  define acc' where "acc' = (if length (players (snd e)) = 0
        then ((fst acc)\<lparr>sessions := AList.delete (fst e) (sessions (fst acc))\<rparr>, snd acc + 1)
        else acc)"
  have h: "map_of (sessions (fst acc)) (fst e) = Some (snd e)" using Cons.prems(3) by simp
  have i: "registryInv (fst acc')"
  proof (cases "length (players (snd e)) = 0")
    case True
    then have "players (snd e) = []" by simp
    from dropEmpty_inv [OF Cons.prems(1) h this] True show ?thesis by (simp add: acc'_def)
  next
    case False
    with Cons.prems(1) show ?thesis by (simp add: acc'_def)
  qed
  have d: "distinct (map fst es)" using Cons.prems(2) by simp
  have r: "\<forall>x \<in> set es. map_of (sessions (fst acc')) (fst x) = Some (snd x)"
  proof
    fix x assume x: "x \<in> set es"
    have "fst e \<notin> fst ` set es" using Cons.prems(2) by simp
    with x have "fst x \<noteq> fst e" by (metis imageI)
    with Cons.prems(3) x show "map_of (sessions (fst acc')) (fst x) = Some (snd x)"
      by (simp add: acc'_def delete_conv')
  qed
  have "cleanupEmptyLoop (e # es) acc = cleanupEmptyLoop es acc'" by (simp add: acc'_def)
  with Cons.IH [OF i d r] show ?case by simp
qed

lemma cleanupFinishedLoop_inv:
  assumes "registryInv (fst acc)" "distinct (map fst es)"
    "\<forall>e \<in> set es. map_of (sessions (fst acc)) (fst e) = Some (snd e)"
  shows "registryInv (fst (cleanupFinishedLoop es acc))"
  using assms
proof (induction es arbitrary: acc)
  case Nil
  then show ?case by simp
next
  case (Cons e es)
  define acc' where "acc' = (if phase (snd e) = Finished
        then ((fst acc)\<lparr>sessions := AList.delete (fst e) (sessions (fst acc)),
                        playerRooms :=
                          fold AList.delete (players (snd e)) (playerRooms (fst acc))\<rparr>,
              snd acc + 1)
        else acc)"
  have h: "map_of (sessions (fst acc)) (fst e) = Some (snd e)" using Cons.prems(3) by simp
  have i: "registryInv (fst acc')"
    using drop_inv [OF Cons.prems(1) h] Cons.prems(1) by (simp add: acc'_def)
  have d: "distinct (map fst es)" using Cons.prems(2) by simp
  have r: "\<forall>x \<in> set es. map_of (sessions (fst acc')) (fst x) = Some (snd x)"
  proof
    fix x assume x: "x \<in> set es"
    have "fst e \<notin> fst ` set es" using Cons.prems(2) by simp
    with x have "fst x \<noteq> fst e" by (metis imageI)
    with Cons.prems(3) x show "map_of (sessions (fst acc')) (fst x) = Some (snd x)"
      by (simp add: acc'_def delete_conv')
  qed
  have "cleanupFinishedLoop (e # es) acc = cleanupFinishedLoop es acc'" by (simp add: acc'_def)
  with Cons.IH [OF i d r] show ?case by simp
qed

lemma entries_lookup:
  assumes "distinct (map fst al)"
  shows "\<forall>e \<in> set al. map_of al (fst e) = Some (snd e)"
  using assms by (simp add: map_of_is_SomeI)

lemma managed_registryInv: "managed g \<Longrightarrow> registryInv g"
proof (induction rule: managed.induct)
  case fresh
  show ?case by (rule newManager_inv)
next
  case (created g p draws rnd coin out g')
  then show ?case using createRoom_inv by blast
next
  case (joined g p rid rnd coin res g')
  then show ?case using joinRoom_inv by blast
next
  case (left g p res g')
  then show ?case using leaveRoom_inv by blast
next
  case (sweptEmpty g g' n)
  from cleanupEmptyLoop_inv [of "(g, 0)" "sessions g"] sweptEmpty
    registryInvD(1) [OF sweptEmpty.IH] entries_lookup [OF registryInvD(1) [OF sweptEmpty.IH]]
  show ?case by (simp add: cleanupEmptyRooms_def)
next
  case (sweptFinished g g' n)
  from cleanupFinishedLoop_inv [of "(g, 0)" "sessions g"] sweptFinished
    registryInvD(1) [OF sweptFinished.IH]
    entries_lookup [OF registryInvD(1) [OF sweptFinished.IH]]
  show ?case by (simp add: cleanupFinishedGames_def)
next
  case (played g p rid session m ok session')
  from played(2,3) have s: "map_of (sessions g) rid = Some session"
    by (auto simp: getSessionByPlayer_def split: if_splits)
  from replace_inv [OF played.IH s applyMove_players [OF played(4)]] show ?case .
qed


text \<open>
  Claim C8. For every registry the operations can produce: \<open>createRoom\<close> and \<open>joinRoom\<close>
  of a player who is already registered return the failure and the registry unchanged; the
  player-to-room map has one entry per player at most; the entry of a player names a live
  match that has the player among its players; and no player is among the players of two
  live matches.
\<close>

theorem registry_one_match_per_player:
  assumes "managed g"
  shows "(map_of (playerRooms g) p \<noteq> None \<longrightarrow>
            createRoom p draws rnd coin g = Some (Inr (Failure AlreadyInRoom, g))
          \<and> joinRoom p rid rnd coin g = Inr (Failure AlreadyInRoom, g))
       \<and> distinct (map fst (playerRooms g))
       \<and> (\<forall>q r. map_of (playerRooms g) q = Some r \<longrightarrow>
             (\<exists>session. map_of (sessions g) r = Some session \<and> q \<in> set (players session)))
       \<and> (\<forall>q r r' session session'.
             map_of (sessions g) r = Some session \<and> q \<in> set (players session)
             \<and> map_of (sessions g) r' = Some session' \<and> q \<in> set (players session')
             \<longrightarrow> r = r')"
proof -
  note inv = managed_registryInv [OF assms]
  have a: "map_of (playerRooms g) p \<noteq> None \<longrightarrow>
            createRoom p draws rnd coin g = Some (Inr (Failure AlreadyInRoom, g))
          \<and> joinRoom p rid rnd coin g = Inr (Failure AlreadyInRoom, g)"
    by (simp add: createRoom_def joinRoom_def)
  have b: "distinct (map fst (playerRooms g))" by (rule registryInvD(2) [OF inv])
  have c: "\<forall>q r. map_of (playerRooms g) q = Some r \<longrightarrow>
             (\<exists>session. map_of (sessions g) r = Some session \<and> q \<in> set (players session))"
    using registryInvD(3) [OF inv] by blast
  have d: "\<forall>q r r' session session'.
             map_of (sessions g) r = Some session \<and> q \<in> set (players session)
             \<and> map_of (sessions g) r' = Some session' \<and> q \<in> set (players session')
             \<longrightarrow> r = r'"
  proof (intro allI impI)
    fix q r r' session session'
    assume h: "map_of (sessions g) r = Some session \<and> q \<in> set (players session)
             \<and> map_of (sessions g) r' = Some session' \<and> q \<in> set (players session')"
    then have "map_of (playerRooms g) q = Some r" "map_of (playerRooms g) q = Some r'"
      using registryInvD(4) [OF inv] by blast+
    then show "r = r'" by simp
  qed
  from a b c d show ?thesis by (intro conjI)
qed

lemma exManager_created:
  "createRoom ''A'' [\<lambda>i. 0] stackedRnd 0 newManager = Some (Inr (Success ''AAAAAA'', exManager))"
proof -
  have "drawRoomId (\<lambda>i. 0) = ''AAAAAA''" by code_simp
  then show ?thesis
    by (simp add: createRoom_def newManager_def exManager_def addPlayer_def newSession_def)
qed

lemma managed_exManager: "managed exManager"
  by (rule managed.created [OF managed.fresh exManager_created])

theorem registry_one_match_per_player_witness:
  "managed exManager \<and> map_of (playerRooms exManager) ''A'' = Some ''AAAAAA''
   \<and> createRoom ''A'' [\<lambda>i. 1] stackedRnd 0 exManager
       = Some (Inr (Failure AlreadyInRoom, exManager))
   \<and> joinRoom ''A'' ''AAAAAA'' stackedRnd 0 exManager = Inr (Failure AlreadyInRoom, exManager)
   \<and> (\<exists>session. map_of (sessions exManager) ''AAAAAA'' = Some session
         \<and> ''A'' \<in> set (players session))"
proof -
  have m: "map_of (playerRooms exManager) ''A'' = Some ''AAAAAA''" by (simp add: exManager_def)
  note t = registry_one_match_per_player [OF managed_exManager,
      of "''A''" "[\<lambda>i. 1]" stackedRnd 0 "''AAAAAA''"]
  from t m have a: "createRoom ''A'' [\<lambda>i. 1] stackedRnd 0 exManager
       = Some (Inr (Failure AlreadyInRoom, exManager))
   \<and> joinRoom ''A'' ''AAAAAA'' stackedRnd 0 exManager = Inr (Failure AlreadyInRoom, exManager)"
    by simp
  from t have "\<forall>q r. map_of (playerRooms exManager) q = Some r \<longrightarrow>
             (\<exists>session. map_of (sessions exManager) r = Some session \<and> q \<in> set (players session))"
    by (elim conjE)
  with m have b: "\<exists>session. map_of (sessions exManager) ''AAAAAA'' = Some session
         \<and> ''A'' \<in> set (players session)" by blast
  from managed_exManager m a b show ?thesis by simp
qed

subsection \<open>Moves of registered players\<close>

text \<open>A session the registry keeps has a hand for each of its players, and while it is
  played its attacker and defender are players; so the moves find every hand they read.\<close>

lemma refillPlayer_dom:
  "refillPlayer q s = Inr s' \<Longrightarrow> dom (hands s') = dom (hands s)"
  by (auto simp: refillPlayer_def Let_def split: option.splits if_splits)

lemma refillHands_dom:
  assumes "refillHands s = Inr s'"
  shows "dom (hands s') = dom (hands s)"
proof -
  from assms obtain s1 where f: "forEach refillPlayer (refillOrder s) s = Inr s1"
    and s': "s' = (if deck s1 = [] \<and> truthyOpt (trumpCard s1) then s1\<lparr>trumpCard := None\<rparr> else s1)"
    by (auto simp: refillHands_def split: sum.splits)
  have "dom (hands s1) = dom (hands s)"
    by (rule forEach_frame [where f = refillPlayer, OF refillPlayer_dom _ _ f]) simp_all
  with s' show ?thesis by simp
qed

lemma forEach_refillPlayer_returns:
  "set qs \<subseteq> dom (hands s) \<Longrightarrow> \<exists>s'. forEach refillPlayer qs s = Inr s'"
proof (induction qs arbitrary: s)
  case Nil
  then show ?case by simp
next
  case (Cons q qs)
  then obtain hand where h: "hands s q = Some hand" by auto
  define s1 where "s1 = s\<lparr>deck := snd (drawUpTo hand (deck s)),
        hands := (hands s)(q \<mapsto> sortHand (fst (drawUpTo hand (deck s))) (trumpSuit s))\<rparr>"
  have r: "refillPlayer q s = Inr s1" using h by (simp add: refillPlayer_def Let_def s1_def)
  have "set qs \<subseteq> dom (hands s1)" using Cons.prems by (auto simp: s1_def)
  from Cons.IH [OF this] r show ?case by simp
qed

lemma refillHands_returns:
  assumes "set (refillOrder s) \<subseteq> dom (hands s)"
  shows "\<exists>s'. refillHands s = Inr s'"
  using forEach_refillPlayer_returns [OF assms] by (auto simp: refillHands_def)

lemma checkPlayer_returns:
  assumes "q \<in> dom (hands s)" "set (players s) \<subseteq> dom (hands s)"
  shows "\<exists>s'. checkPlayer q s = Inr s'"
proof -
  from assms(1) obtain hand where h: "hands s q = Some hand" by auto
  show ?thesis
  proof (cases "find (\<lambda>p. p \<noteq> q) (players s)")
    case None
    with h show ?thesis by (simp add: checkPlayer_def)
  next
    case (Some opp)
    then have "opp \<in> set (players s)" by (auto simp: find_Some_iff)
    with assms(2) obtain oh where "hands s opp = Some oh" by auto
    with h Some show ?thesis by (simp add: checkPlayer_def)
  qed
qed

lemma forEach_checkPlayer_returns:
  "set qs \<subseteq> dom (hands s) \<Longrightarrow> set (players s) \<subseteq> dom (hands s)
     \<Longrightarrow> \<exists>s'. forEach checkPlayer qs s = Inr s'"
proof (induction qs arbitrary: s)
  case Nil
  then show ?case by simp
next
  case (Cons q qs)
  have "q \<in> dom (hands s)" using Cons.prems(1) by simp
  from checkPlayer_returns [OF this Cons.prems(2)] obtain s1 where
    c: "checkPlayer q s = Inr s1" by blast
  from checkPlayer_fields [OF c] have k: "players s1 = players s" "hands s1 = hands s" by simp_all
  have "set qs \<subseteq> dom (hands s1)" "set (players s1) \<subseteq> dom (hands s1)"
    using Cons.prems k by simp_all
  from Cons.IH [OF this] c show ?case by simp
qed

lemma checkWinner_returns:
  assumes "set (players s) \<subseteq> dom (hands s)"
  shows "\<exists>s'. checkWinner s = Inr s'"
  using forEach_checkPlayer_returns [OF assms assms] by (simp add: checkWinner_def)

lemma seatsInvD:
  assumes "seatsInv s"
  shows "distinct (players s)" "set (players s) \<subseteq> dom (hands s)"
    "phase s = Playing \<Longrightarrow> length (players s) = 2"
    "phase s = Playing \<Longrightarrow> attacker s = Some a \<Longrightarrow> a \<in> set (players s)"
    "phase s = Playing \<Longrightarrow> defender s = Some d \<Longrightarrow> d \<in> set (players s)"
  using assms unfolding seatsInv_def by auto

lemma roundEnd_seated:
  assumes inv: "seatsInv s" and ph: "phase s = Playing"
    and s0: "dom (hands s0) = dom (hands s)" "players s0 = players s"
      "attacker s0 = attacker s" "defender s0 = defender s"
  shows "\<exists>s1. refillHands s0 = Inr s1 \<and> set (players s1) \<subseteq> dom (hands s1)"
proof -
  have "set (refillOrder s0) \<subseteq> set (players s)"
    using seatsInvD(4,5) [OF inv ph] s0(3,4)
    by (auto simp: refillOrder_def split: option.splits)
  with seatsInvD(2) [OF inv] s0(1) have "set (refillOrder s0) \<subseteq> dom (hands s0)" by auto
  from refillHands_returns [OF this] obtain s1 where r: "refillHands s0 = Inr s1" by blast
  from refillHands_dom [OF r] refillHands_fields [OF r] seatsInvD(2) [OF inv] s0(1,2)
  have "set (players s1) \<subseteq> dom (hands s1)" by simp
  with r show ?thesis by blast
qed

lemma applyMove_seated:
  assumes inv: "seatsInv s" and p: "actor m \<in> set (players s)"
  shows "(\<not> precondition m s \<longrightarrow> applyMove m s = Inr (False, s))
       \<and> (precondition m s \<longrightarrow> (\<exists>s'. applyMove m s = Inr (True, s')))"
proof (cases m)
  case (Attack p c)
  with p seatsInvD(2) [OF inv] obtain hand where "hands s p = Some hand" by auto
  then show ?thesis
    by (auto simp: Attack attack_def cardOwned_def removeCardFromHand_def)
next
  case (Defend p a d)
  with p seatsInvD(2) [OF inv] obtain hand where h: "hands s p = Some hand" by auto
  have f: "(find (\<lambda>q. attackOf q = a \<and> defenseOf q = None) (table s) = None)
         = (\<not> (\<exists>q \<in> set (table s). attackOf q = a \<and> defenseOf q = None))"
    by (auto simp: find_None_iff)
  show ?thesis using h
    by (auto simp: Defend defend_def cardOwned_def removeCardFromHand_def Let_def f
        split: option.splits)
next
  case (ThrowIn p c)
  with p seatsInvD(2) [OF inv] obtain hand where h: "hands s p = Some hand" by auto
  show ?thesis
  proof (cases "phase s = Playing")
    case False
    then show ?thesis by (simp add: ThrowIn throwIn_def)
  next
    case True
    have d: "defenderHandSize s =
        Inr (case defender s of None \<Rightarrow> 0 | Some d \<Rightarrow> if truthy d then handSize s d else 0)"
    proof (cases "defender s")
      case None
      then show ?thesis by (simp add: defenderHandSize_def)
    next
      case (Some d)
      from seatsInvD(5) [OF inv True Some] seatsInvD(2) [OF inv] obtain dh where
        "hands s d = Some dh" by auto
      with Some show ?thesis by (simp add: defenderHandSize_def handSize_def)
    qed
    show ?thesis using h d True
      by (auto simp: ThrowIn throwIn_def cardOwned_def removeCardFromHand_def Let_def
          split: option.splits)
  qed
next
  case (PassTurn p)
  show ?thesis
  proof (cases "precondition m s")
    case False
    then show ?thesis by (auto simp: PassTurn passTurn_def)
  next
    case True
    then have e: "phase s = Playing" "attacker s = Some p" "allDefended (table s)"
      by (simp_all add: PassTurn)
    from roundEnd_seated [OF inv e(1), of "s\<lparr>table := [], canThrow := False\<rparr>"] obtain s1 where
      r: "refillHands (s\<lparr>table := [], canThrow := False\<rparr>) = Inr s1"
      and k: "set (players s1) \<subseteq> dom (hands s1)"
      by auto
    have "set (players (s1\<lparr>attacker := defender s1, defender := attacker s1,
                               lastAction := RoundDone\<rparr>))
          \<subseteq> dom (hands (s1\<lparr>attacker := defender s1, defender := attacker s1,
                               lastAction := RoundDone\<rparr>))"
      using k by simp
    from checkWinner_returns [OF this] obtain s' where
      "checkWinner (s1\<lparr>attacker := defender s1, defender := attacker s1,
                               lastAction := RoundDone\<rparr>) = Inr s'" by blast
    with r e True show ?thesis by (simp add: PassTurn passTurn_def)
  qed
next
  case (TakeCards p)
  show ?thesis
  proof (cases "precondition m s")
    case False
    then show ?thesis by (auto simp: TakeCards takeCards_def)
  next
    case True
    then have e: "phase s = Playing" "defender s = Some p" "table s \<noteq> []"
      by (simp_all add: TakeCards)
    from seatsInvD(5) [OF inv e(1,2)] seatsInvD(2) [OF inv] obtain dh where
      "hands s p = Some dh" by auto
    with e(2) have "\<exists>sa. takeTable s = Inr sa"
      by (simp add: takeTable_def)
    then obtain sa where t: "takeTable s = Inr sa" by blast
    from takeTable_fields [OF t] takeTable_players [OF t]
    have f: "dom (hands (sa\<lparr>table := [], canThrow := False\<rparr>)) = dom (hands s)"
      "players (sa\<lparr>table := [], canThrow := False\<rparr>) = players s"
      "attacker (sa\<lparr>table := [], canThrow := False\<rparr>) = attacker s"
      "defender (sa\<lparr>table := [], canThrow := False\<rparr>) = defender s"
      by simp_all
    from roundEnd_seated [OF inv e(1) f] obtain s1 where
      r: "refillHands (sa\<lparr>table := [], canThrow := False\<rparr>) = Inr s1"
      and k: "set (players s1) \<subseteq> dom (hands s1)"
      by auto
    have "set (players (s1\<lparr>lastAction := Took p\<rparr>)) \<subseteq> dom (hands (s1\<lparr>lastAction := Took p\<rparr>))"
      using k by simp
    from checkWinner_returns [OF this] obtain s' where
      "checkWinner (s1\<lparr>lastAction := Took p\<rparr>) = Inr s'" by blast
    with t r e True show ?thesis by (simp add: TakeCards takeCards_def)
  qed
qed

lemma applyMove_seats:
  assumes inv: "seatsInv s" and a: "applyMove m s = Inr (ok, s')"
  shows "seatsInv s'"
proof (cases ok)
  case False
  with a have "s' = s" by (simp add: applyMove_False)
  with inv show ?thesis by simp
next
  case True
  show ?thesis
  proof (cases m)
    case (Attack p c)
    with a True have "attack p c s = Inr (True, s')" by simp
    from attack_True [OF this] inv show ?thesis by (auto simp: seatsInv_def)
  next
    case (Defend p ac dc)
    with a True have "defend p ac dc s = Inr (True, s')" by simp
    from defend_True [OF this] inv show ?thesis by (auto simp: seatsInv_def)
  next
    case (ThrowIn p c)
    with a True have "throwIn p c s = Inr (True, s')" by simp
    from throwIn_True [OF this] inv show ?thesis by (auto simp: seatsInv_def)
  next
    case (PassTurn p)
    with a True have "passTurn p s = Inr (True, s')" by simp
    from passTurn_True [OF this] obtain s1 where
      e: "phase s = Playing"
      and r: "refillHands (s\<lparr>table := [], canThrow := False\<rparr>) = Inr s1"
      and c: "checkWinner (s1\<lparr>attacker := defender s1, defender := attacker s1,
                               lastAction := RoundDone\<rparr>) = Inr s'"
      by blast
    from refillHands_fields [OF r] refillHands_dom [OF r] checkWinner_fields [OF c]
    have k: "players s' = players s" "dom (hands s') = dom (hands s)"
      "attacker s' = defender s" "defender s' = attacker s"
      by simp_all
    from seatsInvD [OF inv] e k show ?thesis by (auto simp: seatsInv_def)
  next
    case (TakeCards p)
    with a True have "takeCards p s = Inr (True, s')" by simp
    from takeCards_True [OF this] obtain s1 s2 where
      e: "phase s = Playing"
      and t: "takeTable s = Inr s1"
      and r: "refillHands (s1\<lparr>table := [], canThrow := False\<rparr>) = Inr s2"
      and c: "checkWinner (s2\<lparr>lastAction := Took p\<rparr>) = Inr s'"
      by blast
    from takeTable_fields [OF t] takeTable_players [OF t] refillHands_fields [OF r]
      refillHands_dom [OF r] checkWinner_fields [OF c]
    have k: "players s' = players s" "dom (hands s') = dom (hands s)"
      "attacker s' = attacker s" "defender s' = defender s"
      by simp_all
    from seatsInvD [OF inv] e k show ?thesis by (auto simp: seatsInv_def)
  qed
qed

lemma dealCard_dom: "dealCard p s = Inr s' \<Longrightarrow> dom (hands s') = dom (hands s)"
  by (auto simp: dealCard_def Let_def split: if_splits option.splits)

lemma dealRounds_dom: "dealRounds n s = Inr s' \<Longrightarrow> dom (hands s') = dom (hands s)"
proof (induction n arbitrary: s)
  case 0
  then show ?case by simp
next
  case (Suc n)
  from Suc.prems obtain s1 where a: "forEach dealCard (players s) s = Inr s1"
    and b: "dealRounds n s1 = Inr s'" by (auto split: sum.splits)
  have "dom (hands s1) = dom (hands s)"
    by (rule forEach_frame [where f = dealCard, OF dealCard_dom _ _ a]) simp_all
  with Suc.IH [OF b] show ?case by simp
qed

lemma sortPlayerHand_fields:
  "sortPlayerHand p s = Inr s' \<Longrightarrow>
     dom (hands s') = dom (hands s) \<and> attacker s' = attacker s \<and> defender s' = defender s"
  by (auto simp: sortPlayerHand_def split: option.splits if_splits)

lemma scanPlayers_snd:
  "scanPlayers s ps acc = Inr acc' \<Longrightarrow> snd acc' = snd acc \<or> (\<exists>p \<in> set ps. snd acc' = Some p)"
proof (induction ps arbitrary: acc)
  case Nil
  then show ?case by simp
next
  case (Cons p ps)
  from Cons.prems obtain hand where h: "hands s p = Some hand"
    and r: "scanPlayers s ps (scanHand (trumpSuit s) p hand acc) = Inr acc'"
    by (auto split: option.splits)
  from Cons.IH [OF r] scanHand_snd [of "trumpSuit s" p hand acc] show ?case by auto
qed

lemma determineFirstAttacker_fields:
  assumes "determineFirstAttacker coin s = Inr s'"
  shows "hands s' = hands s \<and> players s' = players s
       \<and> (\<forall>a. attacker s' = Some a \<longrightarrow> a \<in> set (players s))"
proof -
  from assms obtain acc where sc: "scanPlayers s (players s) (None, None) = Inr acc"
    and s': "s' = s\<lparr>attacker :=
                 (if truthyOpt (snd acc) then snd acc
                  else if coin mod 2 < length (players s)
                       then Some (players s ! (coin mod 2)) else None)\<rparr>"
    by (auto simp: determineFirstAttacker_def split: sum.splits)
  from scanPlayers_snd [OF sc] have "snd acc = None \<or> (\<exists>p \<in> set (players s). snd acc = Some p)"
    by simp
  then show ?thesis by (auto simp: s' truthyOpt_def)
qed

lemma startGame_seats:
  assumes a: "startGame rnd coin s = Inr s'" and d: "distinct (players s)"
    and h: "set (players s) \<subseteq> dom (hands s)" and l: "length (players s) = 2"
  shows "seatsInv s' \<and> phase s' = Playing"
proof -
  from a obtain s1 where
    a1: "dealRounds 6 (s\<lparr>deck := shuffleDeck rnd generateDeck\<rparr>) = Inr s1"
    by (auto simp: startGame_def split: sum.splits)
  define s2 where "s2 = (case deck s1 of
                      [] \<Rightarrow> s1\<lparr>trumpCard := None\<rparr>
                    | c # rest \<Rightarrow>
                        s1\<lparr>deck := rest, trumpCard := (if truthy c then Some c else None)\<rparr>)"
  define s3 where "s3 = (case trumpCard s2 of
                      None \<Rightarrow> s2
                    | Some c \<Rightarrow> s2\<lparr>trumpSuit := Some (snd (parseCard c))\<rparr>)"
  have p3: "players s3 = players s1" "hands s3 = hands s1"
    by (simp_all add: s3_def s2_def split: list.splits option.splits)
  from a a1 obtain s4 where b: "determineFirstAttacker coin s3 = Inr s4"
    unfolding s3_def s2_def by (auto simp: startGame_def Let_def split: sum.splits)
  define s5 where "s5 = s4\<lparr>defender :=
                              (case find (\<lambda>p. Some p \<noteq> attacker s4) (players s4) of
                                 None \<Rightarrow> None
                               | Some q \<Rightarrow> if truthy q then Some q else None)\<rparr>"
  from a a1 b obtain s6 where c: "forEach sortPlayerHand (players s5) s5 = Inr s6"
    and e: "s' = s6\<lparr>phase := Playing, lastAction := GameStarted\<rparr>"
    unfolding s5_def s3_def s2_def by (auto simp: startGame_def Let_def split: sum.splits)
  have k6: "dom (hands s6) = dom (hands s5) \<and> attacker s6 = attacker s5
          \<and> defender s6 = defender s5"
    by (rule forEach_frame [where f = sortPlayerHand, OF sortPlayerHand_fields _ _ c]) simp_all
  have ps: "players s' = players s"
    using startGame_players [OF a] .
  have p1: "players s1 = players s" "dom (hands s1) = dom (hands s)"
    using dealRounds_players [OF a1] dealRounds_dom [OF a1] by simp_all
  note k4 = determineFirstAttacker_fields [OF b]
  have dm: "dom (hands s') = dom (hands s)"
    using k6 k4 p3 p1 by (simp add: e s5_def)
  have at: "\<forall>x. attacker s' = Some x \<longrightarrow> x \<in> set (players s)"
    using k6 k4 p3 p1 by (simp add: e s5_def)
  have df: "\<forall>x. defender s' = Some x \<longrightarrow> x \<in> set (players s)"
  proof (intro allI impI)
    fix x assume "defender s' = Some x"
    then have "defender s5 = Some x" using k6 by (simp add: e)
    then have "find (\<lambda>p. Some p \<noteq> attacker s4) (players s4) = Some x"
      by (auto simp: s5_def split: option.splits if_splits)
    then have "x \<in> set (players s4)" by (auto simp: find_Some_iff)
    with k4 p3 p1 show "x \<in> set (players s)" by simp
  qed
  have "phase s' = Playing" by (simp add: e)
  with ps dm at df d h l show ?thesis by (auto simp: seatsInv_def)
qed

lemma addPlayer_seats:
  assumes inv: "seatsInv s" and a: "addPlayer p rnd coin s = Inr (ok, s')"
  shows "seatsInv s'"
proof (cases "2 \<le> length (players s) \<or> p \<in> set (players s)")
  case True
  with a have "s' = s" by (auto simp: addPlayer_def split: if_splits)
  with inv show ?thesis by simp
next
  case False
  define s1 where "s1 = s\<lparr>players := players s @ [p], hands := (hands s)(p \<mapsto> [])\<rparr>"
  have g: "distinct (players s1)" "set (players s1) \<subseteq> dom (hands s1)"
    using seatsInvD(1,2) [OF inv] False by (auto simp: s1_def)
  show ?thesis
  proof (cases "length (players s1) = 2")
    case True
    with a False have "\<exists>s2. startGame rnd coin s1 = Inr s2 \<and> s' = s2"
      by (auto simp: addPlayer_def Let_def s1_def split: sum.splits)
    then have "startGame rnd coin s1 = Inr s'" by simp
    from startGame_seats [OF this g True] show ?thesis by simp
  next
    case n: False
    with a False have s': "s' = s1" by (auto simp: addPlayer_def Let_def s1_def)
    have "phase s \<noteq> Playing" using seatsInvD(3) [OF inv] False by auto
    with g show ?thesis by (auto simp: s' seatsInv_def s1_def)
  qed
qed

lemma removePlayer_seats:
  assumes inv: "seatsInv s"
  shows "seatsInv (removePlayer p s)"
proof -
  define s1 where "s1 = s\<lparr>players := filter (\<lambda>q. q \<noteq> p) (players s),
                 hands := (hands s)(p := None)\<rparr>"
  have g: "distinct (players s1)" "set (players s1) \<subseteq> dom (hands s1)"
    using seatsInvD(1,2) [OF inv] by (auto simp: s1_def)
  show ?thesis
  proof (cases "phase s1 = Playing \<and> length (players s1) = 1")
    case True
    then have "removePlayer p s = s1\<lparr>winner := Some (hd (players s1)), phase := Finished,
                 lastAction := OpponentLeft\<rparr>"
      by (simp add: removePlayer_def Let_def s1_def)
    with g show ?thesis by (auto simp: seatsInv_def)
  next
    case False
    then have r: "removePlayer p s = s1" by (auto simp: removePlayer_def Let_def s1_def)
    show ?thesis
    proof (cases "phase s = Playing")
      case n: False
      with g show ?thesis by (auto simp: r seatsInv_def s1_def)
    next
      case True
      from seatsInvD(3) [OF inv True] obtain a b where ab: "players s = [a, b]"
        by (cases "players s"; cases "tl (players s)") auto
      from seatsInvD(1) [OF inv] ab have "a \<noteq> b" by simp
      with False True ab have "p \<noteq> a" "p \<noteq> b" by (auto simp: s1_def split: if_splits)
      then have pn: "p \<notin> set (players s)" "players s1 = players s" by (simp_all add: s1_def ab)
      have "set (players s) \<subseteq> dom ((hands s)(p := None))"
        using seatsInvD(2) [OF inv] pn(1) by auto
      with pn seatsInvD [OF inv] True show ?thesis by (simp add: r seatsInv_def s1_def subset_iff domIff)
    qed
  qed
qed

lemma cleanupEmptyLoop_sessions:
  "map_of (sessions (fst (cleanupEmptyLoop es acc))) r = Some s
     \<Longrightarrow> map_of (sessions (fst acc)) r = Some s"
proof (induction es arbitrary: acc)
  case Nil
  then show ?case by simp
next
  case (Cons e es)
  define acc' where "acc' = (if length (players (snd e)) = 0
        then ((fst acc)\<lparr>sessions := AList.delete (fst e) (sessions (fst acc))\<rparr>, snd acc + 1)
        else acc)"
  have "cleanupEmptyLoop (e # es) acc = cleanupEmptyLoop es acc'" by (simp add: acc'_def)
  with Cons.prems have "map_of (sessions (fst (cleanupEmptyLoop es acc'))) r = Some s" by simp
  from Cons.IH [OF this] show ?case
    by (simp add: acc'_def delete_conv' split: if_splits)
qed

lemma cleanupFinishedLoop_sessions:
  "map_of (sessions (fst (cleanupFinishedLoop es acc))) r = Some s
     \<Longrightarrow> map_of (sessions (fst acc)) r = Some s"
proof (induction es arbitrary: acc)
  case Nil
  then show ?case by simp
next
  case (Cons e es)
  define acc' where "acc' = (if phase (snd e) = Finished
        then ((fst acc)\<lparr>sessions := AList.delete (fst e) (sessions (fst acc)),
                        playerRooms :=
                          fold AList.delete (players (snd e)) (playerRooms (fst acc))\<rparr>,
              snd acc + 1)
        else acc)"
  have "cleanupFinishedLoop (e # es) acc = cleanupFinishedLoop es acc'" by (simp add: acc'_def)
  with Cons.prems have "map_of (sessions (fst (cleanupFinishedLoop es acc'))) r = Some s" by simp
  from Cons.IH [OF this] show ?case
    by (simp add: acc'_def delete_conv' split: if_splits)
qed

lemma newSession_seats: "seatsInv (newSession rid)"
  by (simp add: seatsInv_def newSession_def)

lemma managed_seatsInv:
  "managed g \<Longrightarrow> map_of (sessions g) r = Some s \<Longrightarrow> seatsInv s"
proof (induction arbitrary: r s rule: managed.induct)
  case fresh
  then show ?case by (simp add: newManager_def)
next
  case (created g p draws rnd coin out g')
  show ?case
  proof (cases "map_of (playerRooms g) p = None")
    case False
    with created(2) have "g' = g" by (auto simp: createRoom_def)
    with created show ?thesis by simp
  next
    case True
    with created(2) obtain rid x where
      a: "addPlayer p rnd coin (newSession rid) = Inr x"
      and g': "g' = g\<lparr>sessions := AList.update rid (snd x) (sessions g),
                      playerRooms := AList.update p rid (playerRooms g)\<rparr>"
      by (auto simp: createRoom_def split: option.splits sum.splits)
    from a have "addPlayer p rnd coin (newSession rid) = Inr (fst x, snd x)" by simp
    from addPlayer_seats [OF newSession_seats this] have n: "seatsInv (snd x)" .
    from created(4) show ?thesis
      using n created(3) by (auto simp: g' update_conv' split: if_splits)
  qed
next
  case (joined g p rid rnd coin res g')
  show ?case
  proof (cases "res = Success ()")
    case False
    with joined(2) have "g' = g"
      by (auto simp: joinRoom_def split: if_splits option.splits sum.splits)
    with joined show ?thesis by simp
  next
    case True
    with joined(2) obtain s0 x where
      s0: "map_of (sessions g) rid = Some s0"
      and a: "addPlayer p rnd coin s0 = Inr x"
      and g': "g' = g\<lparr>sessions := AList.update rid (snd x) (sessions g),
                      playerRooms := AList.update p rid (playerRooms g)\<rparr>"
      by (auto simp: joinRoom_def split: if_splits option.splits sum.splits)
    from a have "addPlayer p rnd coin s0 = Inr (fst x, snd x)" by simp
    from addPlayer_seats [OF joined(3) [OF s0] this] have n: "seatsInv (snd x)" .
    from joined(4) show ?thesis
      using n joined(3) by (auto simp: g' update_conv' split: if_splits)
  qed
next
  case (left g p res g')
  show ?case
  proof (cases "res = Success ()")
    case False
    with left(2) have "g' = g"
      by (auto simp: leaveRoom_def Let_def split: if_splits option.splits)
    with left show ?thesis by simp
  next
    case True
    with left(2) obtain rid s0 where
      s0: "map_of (sessions g) rid = Some s0"
      and g': "g' = (let session' = removePlayer p s0;
                         g1 = g\<lparr>sessions := AList.update rid session' (sessions g),
                                 playerRooms := AList.delete p (playerRooms g)\<rparr>
                     in if length (players session') = 0
                        then g1\<lparr>sessions := AList.delete rid (sessions g1)\<rparr>
                        else g1)"
      by (auto simp: leaveRoom_def Let_def split: if_splits option.splits)
    from removePlayer_seats [OF left(3) [OF s0]] have n: "seatsInv (removePlayer p s0)" .
    from left(4) show ?thesis
      using n left(3)
      by (auto simp: g' Let_def update_conv' delete_conv' split: if_splits)
  qed
next
  case (sweptEmpty g g' n)
  from sweptEmpty(2) have "g' = fst (cleanupEmptyLoop (sessions g) (g, 0))"
    by (simp add: cleanupEmptyRooms_def)
  with sweptEmpty(4) cleanupEmptyLoop_sessions [of "sessions g" "(g, 0)" r s]
  have "map_of (sessions g) r = Some s" by simp
  then show ?case by (rule sweptEmpty(3))
next
  case (sweptFinished g g' n)
  from sweptFinished(2) have "g' = fst (cleanupFinishedLoop (sessions g) (g, 0))"
    by (simp add: cleanupFinishedGames_def)
  with sweptFinished(4) cleanupFinishedLoop_sessions [of "sessions g" "(g, 0)" r s]
  have "map_of (sessions g) r = Some s" by simp
  then show ?case by (rule sweptFinished(3))
next
  case (played g p rid session m ok session')
  from played(2,3) have s0: "map_of (sessions g) rid = Some session"
    by (auto simp: getSessionByPlayer_def split: if_splits)
  from applyMove_seats [OF played(5) [OF s0] played(4)] have n: "seatsInv session'" .
  from played(6) show ?case
    using n played(5) by (auto simp: update_conv' split: if_splits)
qed

lemma seated_player:
  assumes "managed g" and "getSessionByPlayer p g = Some s"
  shows "seatsInv s \<and> p \<in> set (players s)"
proof -
  from assms(2) obtain rid where m: "map_of (playerRooms g) p = Some rid"
    and s: "map_of (sessions g) rid = Some s"
    by (auto simp: getSessionByPlayer_def split: option.splits if_splits)
  from registryInvD(3) [OF managed_registryInv [OF assms(1)] m] s
  have "p \<in> set (players s)" by auto
  with managed_seatsInv [OF assms(1) s] show ?thesis by simp
qed

text \<open>The hypothesis that the caller is a player of the session matters for \<open>throwIn\<close>
  alone, which reads the caller's hand before it compares anybody with the attacker or the
  defender: called directly for an identifier that holds no hand, it raises.\<close>

lemma throwIn_without_hand:
  "phase s = Playing \<Longrightarrow> canThrow s \<Longrightarrow> hands s p = None \<Longrightarrow> throwIn p c s = Inl TypeError"
  by (simp add: throwIn_def)

text \<open>
  Claim C3. The request handlers look up the session of the caller with
  \<open>getSessionByPlayer\<close> and call the move on it for the same identifier; an identifier
  without a session reaches no move. For every registry the server can be in, every such
  call, with any card and in any phase, returns without raising: when a precondition of the
  move is violated it returns false together with the session as it was, and when all hold
  it returns true. A card that is in no hand is refused before the card rules are consulted,
  so these see cards of the deck only.
\<close>

theorem move_outcome:
  assumes "managed g" and "getSessionByPlayer p g = Some s" and "actor m = p"
  shows "(\<not> precondition m s \<longrightarrow> applyMove m s = Inr (False, s))
       \<and> (precondition m s \<longrightarrow> (\<exists>s'. applyMove m s = Inr (True, s')))"
proof -
  from seated_player [OF assms(1,2)] assms(3)
  have "seatsInv s" "actor m \<in> set (players s)" by simp_all
  then show ?thesis by (rule applyMove_seated)
qed

lemma ex_joined:
  "joinRoom ''B'' ''AAAAAA'' stackedRnd 0 exManager = Inr (Success (), exRegistry exDealt)"
  by (simp add: joinRoom_def exManager_def exRegistry_def
      addPlayer_def newSession_def startGame_def stackedDeck_shuffle stackedDeck_def
      dealRounds_numeral dealCard_def determineFirstAttacker_def sortPlayerHand_def
      card_eval hands_twist exDealt_def)

lemma exRegistry_played:
  assumes "managed (exRegistry s)"
    and "applyMove m (s\<lparr>roomId := ''AAAAAA''\<rparr>) = Inr (ok, s'\<lparr>roomId := ''AAAAAA''\<rparr>)"
  shows "managed (exRegistry s')"
  using managed.played [OF assms(1), of "''A''" "''AAAAAA''" "s\<lparr>roomId := ''AAAAAA''\<rparr>" m ok
      "s'\<lparr>roomId := ''AAAAAA''\<rparr>"] assms(2)
  by (simp add: exRegistry_def getSessionByPlayer_def truthy_def)

lemma managed_exDealt: "managed (exRegistry exDealt)"
  by (rule managed.joined [OF managed_exManager ex_joined])

lemma managed_exAttacked: "managed (exRegistry exAttacked)"
proof -
  have a: "applyMove (Attack ''A'' ''6h'') (exDealt\<lparr>roomId := ''AAAAAA''\<rparr>)
             = Inr (True, exAttacked\<lparr>roomId := ''AAAAAA''\<rparr>)"
    by (simp add: exDealt_def exAttacked_def move_eval card_eval)
  from exRegistry_played [OF managed_exDealt a] show ?thesis .
qed

lemma managed_exDefended: "managed (exRegistry exDefended)"
proof -
  have b: "applyMove (Defend ''B'' ''6h'' ''7h'') (exAttacked\<lparr>roomId := ''AAAAAA''\<rparr>)
             = Inr (True, exDefended\<lparr>roomId := ''AAAAAA''\<rparr>)"
    by (simp add: exAttacked_def exDefended_def move_eval card_eval)
  from exRegistry_played [OF managed_exAttacked b] show ?thesis .
qed

theorem move_outcome_witness:
  "managed (exRegistry exDefended)
   \<and> getSessionByPlayer ''A'' (exRegistry exDefended) = Some (exDefended\<lparr>roomId := ''AAAAAA''\<rparr>)
   \<and> getSessionByPlayer ''B'' (exRegistry exDefended) = Some (exDefended\<lparr>roomId := ''AAAAAA''\<rparr>)
   \<and> canThrow (exDefended\<lparr>roomId := ''AAAAAA''\<rparr>)
   \<and> applyMove (Attack ''A'' ''8c'') (exDefended\<lparr>roomId := ''AAAAAA''\<rparr>)
       = Inr (False, exDefended\<lparr>roomId := ''AAAAAA''\<rparr>)
   \<and> applyMove (Defend ''B'' ''6h'' ''10h'') (exDefended\<lparr>roomId := ''AAAAAA''\<rparr>)
       = Inr (False, exDefended\<lparr>roomId := ''AAAAAA''\<rparr>)
   \<and> applyMove (ThrowIn ''B'' ''9c'') (exDefended\<lparr>roomId := ''AAAAAA''\<rparr>)
       = Inr (False, exDefended\<lparr>roomId := ''AAAAAA''\<rparr>)
   \<and> applyMove (ThrowIn ''A'' ''6h'') (exDefended\<lparr>roomId := ''AAAAAA''\<rparr>)
       = Inr (False, exDefended\<lparr>roomId := ''AAAAAA''\<rparr>)
   \<and> applyMove (PassTurn ''B'') (exDefended\<lparr>roomId := ''AAAAAA''\<rparr>)
       = Inr (False, exDefended\<lparr>roomId := ''AAAAAA''\<rparr>)
   \<and> applyMove (TakeCards ''A'') (exDefended\<lparr>roomId := ''AAAAAA''\<rparr>)
       = Inr (False, exDefended\<lparr>roomId := ''AAAAAA''\<rparr>)
   \<and> (\<exists>s'. applyMove (ThrowIn ''A'' ''7d'') (exDefended\<lparr>roomId := ''AAAAAA''\<rparr>) = Inr (True, s'))
   \<and> (\<exists>s'. applyMove (PassTurn ''A'') (exDefended\<lparr>roomId := ''AAAAAA''\<rparr>) = Inr (True, s'))
   \<and> (\<exists>s'. applyMove (TakeCards ''B'') (exDefended\<lparr>roomId := ''AAAAAA''\<rparr>) = Inr (True, s'))
   \<and> managed (exRegistry exDealt)
   \<and> getSessionByPlayer ''A'' (exRegistry exDealt) = Some (exDealt\<lparr>roomId := ''AAAAAA''\<rparr>)
   \<and> (\<exists>s'. applyMove (Attack ''A'' ''6h'') (exDealt\<lparr>roomId := ''AAAAAA''\<rparr>) = Inr (True, s'))
   \<and> managed (exRegistry exAttacked)
   \<and> getSessionByPlayer ''B'' (exRegistry exAttacked) = Some (exAttacked\<lparr>roomId := ''AAAAAA''\<rparr>)
   \<and> (\<exists>s'. applyMove (Defend ''B'' ''6h'' ''7h'') (exAttacked\<lparr>roomId := ''AAAAAA''\<rparr>)
          = Inr (True, s'))"
proof -
  define s where "s = exDefended\<lparr>roomId := ''AAAAAA''\<rparr>"
  define s0 where "s0 = exDealt\<lparr>roomId := ''AAAAAA''\<rparr>"
  define s1 where "s1 = exAttacked\<lparr>roomId := ''AAAAAA''\<rparr>"
  have g: "getSessionByPlayer ''A'' (exRegistry exDefended) = Some s"
    "getSessionByPlayer ''B'' (exRegistry exDefended) = Some s"
    "getSessionByPlayer ''A'' (exRegistry exDealt) = Some s0"
    "getSessionByPlayer ''B'' (exRegistry exAttacked) = Some s1"
    by (simp_all add: s_def s0_def s1_def exRegistry_def getSessionByPlayer_def truthy_def)
  have n: "\<not> precondition (Attack ''A'' ''8c'') s"
    "\<not> precondition (Defend ''B'' ''6h'' ''10h'') s"
    "\<not> precondition (ThrowIn ''B'' ''9c'') s"
    "\<not> precondition (ThrowIn ''A'' ''6h'') s"
    "\<not> precondition (PassTurn ''B'') s"
    "\<not> precondition (TakeCards ''A'') s"
    by (simp_all add: s_def exDefended_def cardOwned_def tableCards_def pairCards_def card_eval)
  have y: "precondition (ThrowIn ''A'' ''7d'') s"
    "precondition (PassTurn ''A'') s"
    "precondition (TakeCards ''B'') s"
    "canThrow s"
    by (simp_all add: s_def exDefended_def cardOwned_def tableCards_def pairCards_def
        allDefended_def handSize_def card_eval)
  have z: "precondition (Attack ''A'' ''6h'') s0" "precondition (Defend ''B'' ''6h'' ''7h'') s1"
    by (simp_all add: s0_def s1_def exDealt_def exAttacked_def cardOwned_def card_eval)
  note a = move_outcome [OF managed_exDefended g(1)]
  note b = move_outcome [OF managed_exDefended g(2)]
  from a [of "Attack ''A'' ''8c''"] b [of "Defend ''B'' ''6h'' ''10h''"]
    b [of "ThrowIn ''B'' ''9c''"] a [of "ThrowIn ''A'' ''6h''"]
    b [of "PassTurn ''B''"] a [of "TakeCards ''A''"]
    a [of "ThrowIn ''A'' ''7d''"] a [of "PassTurn ''A''"] b [of "TakeCards ''B''"]
    move_outcome [OF managed_exDealt g(3), of "Attack ''A'' ''6h''"]
    move_outcome [OF managed_exAttacked g(4), of "Defend ''B'' ''6h'' ''7h''"]
    n y z g managed_exDefended managed_exDealt managed_exAttacked
  show ?thesis unfolding s_def [symmetric] s0_def [symmetric] s1_def [symmetric] by simp
qed

end
